theory Spec2Isabelle
  imports Main "HOL-Library.Word" "HOL-Library.Multiset"
begin

section \<open>Soil moisture sketches: a shallow embedding\<close>

text \<open>
  The repository holds three Arduino sketches for the Uno: a minimal two-sensor logger,
  a single-sensor sketch (\<open>readSoilMoisture\<close>) and the enhanced two-sensor sketch
  (\<open>checkSensor\<close>, \<open>readSensor\<close>, \<open>readSensors\<close>, \<open>sendData\<close>, \<open>loop\<close>).
  The embedding follows the enhanced sketch function by function, and the single-sensor
  sketch where its mapping and its scheduler differ.

  What the sketch reads from its environment is an argument of the model: the value each
  \<open>analogRead\<close> call returns and the value each \<open>millis\<close> call returns. What it does
  to its environment is a list of events, in program order: every \<open>digitalWrite\<close>,
  \<open>delay\<close>, \<open>analogRead\<close>, \<open>Serial.print\<close> and \<open>Serial.println\<close> call.

  The C type \<open>int\<close> is modelled by the integers. Every \<open>analogRead\<close> of the Uno's
  10-bit converter is between 0 and 1023, and with such readings the arithmetic of the
  sketch stays inside the 16-bit range of \<open>int\<close>: \<open>totalReading\<close> never holds more than
  one reading (lemma \<open>readSensor_total_is_raw\<close>), and for every 16-bit input the mapping
  with the calibration of the sketch fits the 32-bit \<open>long\<close> of \<open>map\<close> and the
  \<open>int\<close> it is assigned to (lemma \<open>map_arduino_fits\<close>). The clock is an
  \<open>unsigned long\<close>, where the wrap-around matters: it is a 32-bit word.
\<close>

subsection \<open>Functions of the Arduino core\<close>

text \<open>C division of integers truncates towards zero.\<close>

definition c_div :: "int \<Rightarrow> int \<Rightarrow> int" where
  "c_div a b = (if (a < 0) = (b < 0) then \<bar>a\<bar> div \<bar>b\<bar> else - (\<bar>a\<bar> div \<bar>b\<bar>))"

text \<open>
  Modelled from the spec: the core's \<open>map\<close>, which is not part of the repository. The spec
  gives \<open>percentage = (average - dryValue) * 100 / (wetValue - dryValue)\<close> with integer
  truncation; this is the core's
  \<open>(x - in_min) * (out_max - out_min) / (in_max - in_min) + out_min\<close> at the output range
  0 to 100 (lemma \<open>map_arduino_spec\<close>).
\<close>

definition map_arduino :: "int \<Rightarrow> int \<Rightarrow> int \<Rightarrow> int \<Rightarrow> int \<Rightarrow> int" where
  "map_arduino x in_min in_max out_min out_max =
     c_div ((x - in_min) * (out_max - out_min)) (in_max - in_min) + out_min"

text \<open>
  Modelled from the spec: the core's macro \<open>constrain\<close>, which clamps its first argument
  between the other two.
\<close>

definition constrain :: "int \<Rightarrow> int \<Rightarrow> int \<Rightarrow> int" where
  "constrain amt low high = (if amt < low then low else if amt > high then high else amt)"

text \<open>
  Modelled from the spec: the core's \<open>Serial.print\<close> of a number, which is not part of
  the repository. The spec gives the data line as ASCII text
  \<open><timestampMs>,<rawA0>,<rawA1>\<close>: a number is written as its decimal digits, with a
  leading minus sign for a negative \<open>int\<close>.
\<close>

definition digit_char :: "nat \<Rightarrow> char" where
  "digit_char d = ''0123456789'' ! d"

function dec_nat :: "nat \<Rightarrow> string" where
  "dec_nat n = (if n < 10 then [digit_char n] else dec_nat (n div 10) @ [digit_char (n mod 10)])"
  by pat_completeness auto
termination
  by (relation "measure id") auto

definition dec_int :: "int \<Rightarrow> string" where
  "dec_int i = (if i < 0 then CHR ''-'' # dec_nat (nat (- i)) else dec_nat (nat i))"

text \<open>
  Modelled from the spec: the core's pin constants \<open>A0\<close> and \<open>A1\<close>, which the spec only
  names (a diagnostic prints \<open>sensorPin - A0\<close> after the letter A). On the Uno of the
  sketch's header they are the pins 14 and 15.
\<close>

definition A0 :: int where "A0 = 14"
definition A1 :: int where "A1 = 15"

subsection \<open>Events\<close>

datatype event =
    DigitalWrite int bool
  | Delay nat
  | AnalogRead int int
  | SerialPrint string
  | SerialPrintln string

text \<open>
  The lines on the serial port: \<open>Serial.print\<close> extends the current line,
  \<open>Serial.println\<close> extends and ends it.
\<close>

fun serial_lines :: "event list \<Rightarrow> string \<Rightarrow> string list" where
  "serial_lines [] cur = []"
| "serial_lines (SerialPrint s # es) cur = serial_lines es (cur @ s)"
| "serial_lines (SerialPrintln s # es) cur = (cur @ s) # serial_lines es []"
| "serial_lines (DigitalWrite p v # es) cur = serial_lines es cur"
| "serial_lines (Delay d # es) cur = serial_lines es cur"
| "serial_lines (AnalogRead p v # es) cur = serial_lines es cur"

text \<open>
  The level of a power pin at each \<open>analogRead\<close> of a sensor pin, replaying the events
  from a given level.
\<close>

fun power_at_reads :: "int \<Rightarrow> int \<Rightarrow> bool \<Rightarrow> event list \<Rightarrow> bool list" where
  "power_at_reads pw pin lvl [] = []"
| "power_at_reads pw pin lvl (DigitalWrite p v # es) =
     power_at_reads pw pin (if p = pw then v else lvl) es"
| "power_at_reads pw pin lvl (AnalogRead p v # es) =
     (if p = pin then lvl # power_at_reads pw pin lvl es else power_at_reads pw pin lvl es)"
| "power_at_reads pw pin lvl (Delay d # es) = power_at_reads pw pin lvl es"
| "power_at_reads pw pin lvl (SerialPrint s # es) = power_at_reads pw pin lvl es"
| "power_at_reads pw pin lvl (SerialPrintln s # es) = power_at_reads pw pin lvl es"

fun is_analog_read :: "event \<Rightarrow> bool" where
  "is_analog_read (AnalogRead p v) = True"
| "is_analog_read (DigitalWrite p v) = False"
| "is_analog_read (Delay d) = False"
| "is_analog_read (SerialPrint s) = False"
| "is_analog_read (SerialPrintln s) = False"

subsection \<open>Constants and state of the enhanced two-sensor sketch\<close>

definition moistureSensorA0 :: int where "moistureSensorA0 = A0"
definition moistureSensorA1 :: int where "moistureSensorA1 = A1"
definition sensorPowerPinA0 :: int where "sensorPowerPinA0 = 7"
definition sensorPowerPinA1 :: int where "sensorPowerPinA1 = 8"
definition sendInterval :: "32 word" where "sendInterval = 5000"
definition powerPrewarmTime :: nat where "powerPrewarmTime = 100"
definition airValueA0 :: int where "airValueA0 = 1023"
definition waterValueA0 :: int where "waterValueA0 = 300"
definition airValueA1 :: int where "airValueA1 = 1023"
definition waterValueA1 :: int where "waterValueA1 = 300"
definition numReadings :: nat where "numReadings = 5"

text \<open>
  The variables of one sensor, which \<open>readSensor\<close> receives by address: the array
  \<open>readings\<close>, \<open>totalReading\<close>, \<open>rawValue\<close>, \<open>percentage\<close>,
  \<open>lastGoodReading\<close> (-1 when there is none) and \<open>sensorError\<close>. The two calls in
  \<open>readSensors\<close> pass disjoint variables, so each sensor has a record of its own.
\<close>

record channel =
  readings :: "int list"
  totalReading :: int
  rawValue :: int
  percentage :: int
  lastGoodReading :: int
  sensorError :: bool

text \<open>
  The globals of the sketch: the variables of the two sensors, the shared \<open>readIndex\<close>
  and \<open>lastSendTime\<close>.
\<close>

record sketch =
  chA0 :: channel
  chA1 :: channel
  readIndex :: nat
  lastSendTime :: "32 word"

definition channel_init :: channel where
  "channel_init = \<lparr> readings = replicate numReadings 0, totalReading = 0, rawValue = 0,
     percentage = 0, lastGoodReading = - 1, sensorError = False \<rparr>"

text \<open>The globals as their initialisers leave them.\<close>

definition sketch_init :: sketch where
  "sketch_init = \<lparr> chA0 = channel_init, chA1 = channel_init, readIndex = 0, lastSendTime = 0 \<rparr>"

subsection \<open>checkSensor\<close>

text \<open>
  \<open>checkSensor sensorPin testReading errorFlag\<close>: \<open>testReading\<close> is what the
  \<open>analogRead\<close> returns, \<open>errorFlag\<close> the flag the pointer refers to. The result is
  the return value, the flag afterwards and the events.
\<close>

definition checkSensor :: "int \<Rightarrow> int \<Rightarrow> bool \<Rightarrow> bool \<times> bool \<times> event list" where
  "checkSensor sensorPin testReading errorFlag =
     (let powerPin = (if sensorPin = moistureSensorA0 then sensorPowerPinA0 else sensorPowerPinA1);
          on = (if powerPin \<noteq> - 1 then [DigitalWrite powerPin True, Delay powerPrewarmTime] else []);
          rd = [AnalogRead sensorPin testReading];
          off = (if powerPin \<noteq> - 1 then [DigitalWrite powerPin False] else [])
      in if testReading = 0 \<or> testReading = 1023 then
           (if \<not> errorFlag then
              (False, True, on @ rd @ off @
                 [SerialPrint ''ERROR: Sensor on pin A'',
                  SerialPrint (dec_int (sensorPin - A0)),
                  SerialPrintln '' reading out of expected range. Check connections.''])
            else (False, errorFlag, on @ rd @ off))
         else (True, False, on @ rd @ off))"

subsection \<open>The median filter of readSensor\<close>

text \<open>
  The inner loop of the bubble sort, \<open>for (j = 0; j < numReadings - i - 1; j++)\<close>, with
  its bound \<open>m\<close>, and the outer loop \<open>for (i = 0; i < numReadings - 1; i++)\<close>, over an
  array of \<open>n\<close> elements.
\<close>

function bubble_inner :: "nat \<Rightarrow> nat \<Rightarrow> int list \<Rightarrow> int list" where
  "bubble_inner j m t =
     (if j < m then
        bubble_inner (j + 1) m
          (if t ! j > t ! (j + 1) then t[j := t ! (j + 1), j + 1 := t ! j] else t)
      else t)"
  by pat_completeness auto
termination
  by (relation "measure (\<lambda>(j, m, t). m - j)") auto

function bubble_outer :: "nat \<Rightarrow> nat \<Rightarrow> int list \<Rightarrow> int list" where
  "bubble_outer i n t =
     (if i < n - 1 then bubble_outer (i + 1) n (bubble_inner 0 (n - i - 1) t) else t)"
  by pat_completeness auto
termination
  by (relation "measure (\<lambda>(i, n, t). n - 1 - i)") auto

definition bubble_sort :: "nat \<Rightarrow> int list \<Rightarrow> int list" where
  "bubble_sort n t = bubble_outer 0 n t"

text \<open>The median: \<open>tempReadings[numReadings / 2]\<close> after the sort.\<close>

definition median_filter :: "nat \<Rightarrow> int list \<Rightarrow> int" where
  "median_filter n t = bubble_sort n t ! (n div 2)"

subsection \<open>readSensor\<close>

text \<open>
  The sampling loop: \<open>samples i\<close> is what the \<open>analogRead\<close> of iteration \<open>i\<close>
  returns; each read is followed by \<open>delay(10)\<close>.
\<close>

definition sample_events :: "int \<Rightarrow> (nat \<Rightarrow> int) \<Rightarrow> event list" where
  "sample_events sensorPin samples =
     concat (map (\<lambda>i. [AnalogRead sensorPin (samples i), Delay 10]) [0..<numReadings])"

text \<open>The mapping of both sketches: \<open>map\<close> to 0..100, then \<open>constrain\<close> to 0..100.\<close>

definition to_percentage :: "int \<Rightarrow> int \<Rightarrow> int \<Rightarrow> int" where
  "to_percentage x airValue waterValue = constrain (map_arduino x airValue waterValue 0 100) 0 100"

text \<open>
  \<open>readSensor sensorPin powerPin readIdx testReading samples airValue waterValue ch\<close>:
  \<open>readIdx\<close> is the global \<open>readIndex\<close>, \<open>testReading\<close> the reading that
  \<open>checkSensor\<close> takes, \<open>samples\<close> the readings of the sampling loop, \<open>ch\<close> the
  variables behind the pointers. The result is these variables afterwards and the events.
\<close>

definition readSensor ::
  "int \<Rightarrow> int \<Rightarrow> nat \<Rightarrow> int \<Rightarrow> (nat \<Rightarrow> int) \<Rightarrow> int \<Rightarrow> int \<Rightarrow> channel \<Rightarrow> channel \<times> event list" where
  "readSensor sensorPin powerPin readIdx testReading samples airValue waterValue ch =
     (let on = (if powerPin \<noteq> - 1 then [DigitalWrite powerPin True, Delay powerPrewarmTime] else []);
          off = (if powerPin \<noteq> - 1 then [DigitalWrite powerPin False] else []);
          (ok, err, chk) = checkSensor sensorPin testReading (sensorError ch)
      in if ok then
           (let total1 = totalReading ch - readings ch ! readIdx;
                tempReadings = map samples [0..<numReadings];
                raw = median_filter numReadings tempReadings;
                total2 = total1 + raw;
                average = c_div total2 (int numReadings)
            in (ch\<lparr> readings := (readings ch)[readIdx := raw], totalReading := total2,
                    rawValue := raw, percentage := to_percentage average airValue waterValue,
                    lastGoodReading := raw, sensorError := err \<rparr>,
                on @ chk @ sample_events sensorPin samples @ off))
         else if lastGoodReading ch \<noteq> - 1 then
           (ch\<lparr> rawValue := lastGoodReading ch,
                percentage := to_percentage (lastGoodReading ch) airValue waterValue,
                sensorError := err \<rparr>,
            on @ chk @
              [SerialPrint ''WARNING: Using last good reading for A'',
               SerialPrint (dec_int (sensorPin - A0)),
               SerialPrint '': '',
               SerialPrintln (dec_int (lastGoodReading ch))] @ off)
         else (ch\<lparr> sensorError := err \<rparr>, on @ chk @ off))"

subsection \<open>readSensors, sendData, the startup function and loop\<close>

text \<open>
  What one pass of \<open>loop\<close> reads: the clock at the test, the readings of the two sensors,
  the clock in \<open>sendData\<close> and the clock at the final assignment to \<open>lastSendTime\<close>.
\<close>

record cycle_in =
  t_check :: "32 word"
  testA0 :: int
  samplesA0 :: "nat \<Rightarrow> int"
  testA1 :: int
  samplesA1 :: "nat \<Rightarrow> int"
  t_stamp :: "32 word"
  t_end :: "32 word"

definition readSensors :: "cycle_in \<Rightarrow> sketch \<Rightarrow> sketch \<times> event list" where
  "readSensors inp st =
     (let (c0, ev0) = readSensor moistureSensorA0 sensorPowerPinA0 (readIndex st)
                        (testA0 inp) (samplesA0 inp) airValueA0 waterValueA0 (chA0 st);
          (c1, ev1) = readSensor moistureSensorA1 sensorPowerPinA1 (readIndex st)
                        (testA1 inp) (samplesA1 inp) airValueA1 waterValueA1 (chA1 st)
      in (st\<lparr> chA0 := c0, chA1 := c1 \<rparr>, ev0 @ ev1))"

definition sendData :: "32 word \<Rightarrow> sketch \<Rightarrow> event list" where
  "sendData timestamp st =
     [SerialPrint (dec_nat (unat timestamp)),
      SerialPrint '','',
      SerialPrint (dec_int (rawValue (chA0 st))),
      SerialPrint '','',
      SerialPrintln (dec_int (rawValue (chA1 st)))]"

text \<open>
  The startup function of the sketch, from the point where the serial port is ready (on the
  Uno it always is): both power pins low, the arrays zeroed, the banner, and one
  \<open>checkSensor\<close> for each sensor, whose readings are the two arguments. The calls of
  \<open>Serial.begin\<close> and \<open>pinMode\<close> leave no event.
\<close>

definition setup_sketch :: "int \<Rightarrow> int \<Rightarrow> sketch \<Rightarrow> sketch \<times> event list" where
  "setup_sketch t0 t1 st =
     (let pw0 = (if sensorPowerPinA0 \<noteq> - 1 then [DigitalWrite sensorPowerPinA0 False] else []);
          pw1 = (if sensorPowerPinA1 \<noteq> - 1 then [DigitalWrite sensorPowerPinA1 False] else []);
          z0 = (chA0 st)\<lparr> readings := replicate numReadings 0 \<rparr>;
          z1 = (chA1 st)\<lparr> readings := replicate numReadings 0 \<rparr>;
          banner = [SerialPrintln ''Soil Moisture Dual Sensor System Starting'',
                    SerialPrintln ''Format: timestamp,moisture_A0,moisture_A1''];
          (ok0, e0, ev0) = checkSensor moistureSensorA0 t0 (sensorError z0);
          (ok1, e1, ev1) = checkSensor moistureSensorA1 t1 (sensorError z1)
      in (st\<lparr> chA0 := z0\<lparr> sensorError := e0 \<rparr>, chA1 := z1\<lparr> sensorError := e1 \<rparr> \<rparr>,
          pw0 @ pw1 @ banner @ ev0 @ ev1))"

definition loop :: "cycle_in \<Rightarrow> sketch \<Rightarrow> sketch \<times> event list" where
  "loop inp st =
     (if t_check inp - lastSendTime st \<ge> sendInterval then
        (let (st1, ev1) = readSensors inp st;
             ev2 = sendData (t_stamp inp) st1
         in (st1\<lparr> lastSendTime := t_end inp \<rparr>, ev1 @ ev2))
      else (st, []))"

text \<open>Whether a pass of \<open>loop\<close> runs a cycle.\<close>

definition fires :: "cycle_in \<Rightarrow> sketch \<Rightarrow> bool" where
  "fires inp st = (t_check inp - lastSendTime st \<ge> sendInterval)"

text \<open>
  Passes of \<open>loop\<close> one after the other: for each pass the globals after it and its
  events.
\<close>

fun run_loops :: "cycle_in list \<Rightarrow> sketch \<Rightarrow> (sketch \<times> event list) list" where
  "run_loops [] st = []"
| "run_loops (inp # rest) st = loop inp st # run_loops rest (fst (loop inp st))"

text \<open>Calls of \<open>readSensor\<close> for one sensor one after the other, at a fixed \<open>readIndex\<close>.\<close>

fun readSensor_cycles ::
  "int \<Rightarrow> int \<Rightarrow> nat \<Rightarrow> int \<Rightarrow> int \<Rightarrow> (int \<times> (nat \<Rightarrow> int)) list \<Rightarrow> channel \<Rightarrow> channel" where
  "readSensor_cycles sensorPin powerPin readIdx airValue waterValue [] ch = ch"
| "readSensor_cycles sensorPin powerPin readIdx airValue waterValue (c # rest) ch =
     readSensor_cycles sensorPin powerPin readIdx airValue waterValue rest
       (fst (readSensor sensorPin powerPin readIdx (fst c) (snd c) airValue waterValue ch))"

text \<open>
  Calls of \<open>checkSensor\<close> for one sensor one after the other: for each reading the flag
  after the call and the number of lines the call prints.
\<close>

fun checkSensor_run :: "int \<Rightarrow> bool \<Rightarrow> int list \<Rightarrow> (bool \<times> nat) list" where
  "checkSensor_run sensorPin errorFlag [] = []"
| "checkSensor_run sensorPin errorFlag (r # rs) =
     (case checkSensor sensorPin r errorFlag of
        (ok, e, ev) \<Rightarrow> (e, length (serial_lines ev [])) # checkSensor_run sensorPin e rs)"

subsection \<open>The single-sensor sketch\<close>

definition moistureSensorPin :: int where "moistureSensorPin = A0"
definition readInterval :: "32 word" where "readInterval = 5000"
definition airValue :: int where "airValue = 1023"
definition waterValue :: int where "waterValue = 300"

record single =
  previousMillis :: "32 word"
  rawMoistureValue :: int
  moisturePercentage :: int

definition single_init :: single where
  "single_init = \<lparr> previousMillis = 0, rawMoistureValue = 0, moisturePercentage = 0 \<rparr>"

text \<open>\<open>readSoilMoisture\<close>; the argument is what its \<open>analogRead\<close> returns.\<close>

definition readSoilMoisture :: "int \<Rightarrow> single \<Rightarrow> single \<times> event list" where
  "readSoilMoisture reading s =
     (let s1 = s\<lparr> rawMoistureValue := reading \<rparr>;
          s2 = s1\<lparr> moisturePercentage := map_arduino (rawMoistureValue s1) airValue waterValue 0 100 \<rparr>;
          s3 = s2\<lparr> moisturePercentage := constrain (moisturePercentage s2) 0 100 \<rparr>
      in (s3, [AnalogRead moistureSensorPin reading]))"

definition sendData_single :: "single \<Rightarrow> event list" where
  "sendData_single s =
     [SerialPrint ''DATA,'',
      SerialPrint (dec_int (rawMoistureValue s)),
      SerialPrint '','',
      SerialPrintln (dec_int (moisturePercentage s))]"

text \<open>Its \<open>loop\<close> reads the clock once, into \<open>currentMillis\<close>.\<close>

definition loop_single :: "32 word \<Rightarrow> int \<Rightarrow> single \<Rightarrow> single \<times> event list" where
  "loop_single currentMillis reading s =
     (if currentMillis - previousMillis s \<ge> readInterval then
        (let (s1, ev) = readSoilMoisture reading (s\<lparr> previousMillis := currentMillis \<rparr>)
         in (s1, ev @ sendData_single s1))
      else (s, []))"

subsection \<open>Vocabulary of the properties\<close>

text \<open>A reading at a rail of the converter, which \<open>checkSensor\<close> rejects.\<close>

definition out_of_range :: "int \<Rightarrow> bool" where
  "out_of_range r \<longleftrightarrow> r = 0 \<or> r = 1023"

text \<open>The three kinds of line that the enhanced sketch prints after its banner.\<close>

definition error_line :: "int \<Rightarrow> string" where
  "error_line sensorPin = ''ERROR: Sensor on pin A'' @ dec_int (sensorPin - A0) @
     '' reading out of expected range. Check connections.''"

definition warning_line :: "int \<Rightarrow> int \<Rightarrow> string" where
  "warning_line sensorPin v =
     ''WARNING: Using last good reading for A'' @ dec_int (sensorPin - A0) @ '': '' @ dec_int v"

definition data_line :: "32 word \<Rightarrow> int \<Rightarrow> int \<Rightarrow> string" where
  "data_line timestamp a b = dec_nat (unat timestamp) @ '','' @ dec_int a @ '','' @ dec_int b"

definition is_diagnostic :: "string \<Rightarrow> bool" where
  "is_diagnostic l \<longleftrightarrow> take 7 l = ''ERROR: '' \<or> take 9 l = ''WARNING: ''"

text \<open>The line left unfinished on the serial port after some events.\<close>

fun pending :: "event list \<Rightarrow> string \<Rightarrow> string" where
  "pending [] cur = cur"
| "pending (SerialPrint s # es) cur = pending es (cur @ s)"
| "pending (SerialPrintln s # es) cur = pending es []"
| "pending (DigitalWrite p v # es) cur = pending es cur"
| "pending (Delay d # es) cur = pending es cur"
| "pending (AnalogRead p v # es) cur = pending es cur"

text \<open>A sensor that returns the same reading at every \<open>analogRead\<close>.\<close>

definition steady :: "int \<Rightarrow> nat \<Rightarrow> int" where
  "steady v i = v"

text \<open>
  A pass of \<open>loop\<close> with the clock reads \<open>t\<close>, \<open>t\<close> and \<open>t'\<close> and the two sensors
  steady at \<open>v0\<close> and \<open>v1\<close>.
\<close>

definition steady_cycle :: "32 word \<Rightarrow> 32 word \<Rightarrow> int \<Rightarrow> int \<Rightarrow> cycle_in" where
  "steady_cycle t t' v0 v1 =
     \<lparr> t_check = t, testA0 = v0, samplesA0 = steady v0, testA1 = v1, samplesA1 = steady v1,
       t_stamp = t, t_end = t' \<rparr>"

text \<open>A sensor whose successive readings in the sampling loop are the elements of a list.\<close>

definition scripted :: "int list \<Rightarrow> nat \<Rightarrow> int" where
  "scripted xs i = xs ! i"

text \<open>
  A pass of \<open>loop\<close> with the clock reads \<open>t\<close>, \<open>t\<close> and \<open>t'\<close>, in which sensor A0
  gives the validation reading \<open>tr0\<close> and then the samples \<open>xs0\<close>, and sensor A1 is
  steady at \<open>v1\<close>.
\<close>

definition scripted_cycle :: "32 word \<Rightarrow> 32 word \<Rightarrow> int \<Rightarrow> int list \<Rightarrow> int \<Rightarrow> cycle_in" where
  "scripted_cycle t t' tr0 xs0 v1 =
     \<lparr> t_check = t, testA0 = tr0, samplesA0 = scripted xs0, testA1 = v1, samplesA1 = steady v1,
       t_stamp = t, t_end = t' \<rparr>"

text \<open>
  The invariant of the outer loop of the bubble sort before pass \<open>i\<close>: the last \<open>i\<close>
  elements are in order and none is below an element before them.
\<close>

definition bubble_inv :: "nat \<Rightarrow> nat \<Rightarrow> int list \<Rightarrow> bool" where
  "bubble_inv n i t \<longleftrightarrow> length t = n
     \<and> (\<forall>p q. n - i \<le> p \<and> p \<le> q \<and> q < n \<longrightarrow> t ! p \<le> t ! q)
     \<and> (\<forall>p q. p < n - i \<and> n - i \<le> q \<and> q < n \<longrightarrow> t ! p \<le> t ! q)"

section \<open>Lemmas\<close>

subsection \<open>The bubble sort sorts\<close>

declare bubble_inner.simps [simp del]
declare bubble_outer.simps [simp del]

lemma bubble_inner_length [simp]: "length (bubble_inner j m t) = length t"
proof (induction j m t rule: bubble_inner.induct)
  case (1 j m t)
  then show ?case by (subst bubble_inner.simps) simp
qed

lemma bubble_inner_spec:
  assumes "j \<le> m" "m < length t" "\<forall>k<j. t ! k \<le> t ! j"
  shows "(\<forall>k\<le>m. bubble_inner j m t ! k \<le> bubble_inner j m t ! m)
       \<and> (\<forall>k. m < k \<longrightarrow> bubble_inner j m t ! k = t ! k)
       \<and> mset (bubble_inner j m t) = mset t"
  using assms
proof (induction j m t rule: bubble_inner.induct)
  case (1 j m t)
  show ?case
  proof (cases "j < m")
    case False
    with "1.prems" have jm: "j = m" by simp
    have eq: "bubble_inner j m t = t" using False by (subst bubble_inner.simps) simp
    show ?thesis unfolding eq using "1.prems"(3) jm
      by (auto simp: le_less)
  next
    case True
    let ?t' = "if t ! j > t ! (j + 1) then t[j := t ! (j + 1), j + 1 := t ! j] else t"
    have eq: "bubble_inner j m t = bubble_inner (j + 1) m ?t'"
      using True by (subst bubble_inner.simps) simp
    have len: "m < length ?t'" using "1.prems"(2) by simp
    have jl: "j < length t" "j + 1 < length t" using True "1.prems"(2) by auto
    have mx: "\<forall>k<j + 1. ?t' ! k \<le> ?t' ! (j + 1)"
    proof (intro allI impI)
      fix k assume k: "k < j + 1"
      show "?t' ! k \<le> ?t' ! (j + 1)"
      proof (cases "k = j")
        case True
        then show ?thesis using jl by auto
      next
        case False
        with k have kj: "k < j" by simp
        then have "t ! k \<le> t ! j" using "1.prems"(3) by simp
        then show ?thesis using kj jl by auto
      qed
    qed
    have ms: "mset ?t' = mset t"
      using jl by (simp add: mset_swap)
    have rest: "\<forall>k. m < k \<longrightarrow> ?t' ! k = t ! k"
      using True by auto
    from "1.IH" [OF True _ len mx] True
    have IH: "(\<forall>k\<le>m. bubble_inner (j + 1) m ?t' ! k \<le> bubble_inner (j + 1) m ?t' ! m)
       \<and> (\<forall>k. m < k \<longrightarrow> bubble_inner (j + 1) m ?t' ! k = ?t' ! k)
       \<and> mset (bubble_inner (j + 1) m ?t') = mset ?t'" by simp
    show ?thesis unfolding eq using IH ms rest by simp
  qed
qed

lemma bubble_inner_prefix:
  assumes "j \<le> m" "m < length t" "\<forall>k<j. t ! k \<le> t ! j" "p \<le> m"
  shows "\<exists>p'\<le>m. bubble_inner j m t ! p = t ! p'"
proof -
  let ?r = "bubble_inner j m t"
  from bubble_inner_spec [OF assms(1-3)]
  have rest: "\<forall>k. m < k \<longrightarrow> ?r ! k = t ! k" and ms: "mset ?r = mset t" by auto
  have "drop (Suc m) ?r = drop (Suc m) t"
    using rest by (intro nth_equalityI) auto
  moreover have "mset (take (Suc m) ?r) + mset (drop (Suc m) ?r) = mset (take (Suc m) t) + mset (drop (Suc m) t)"
    using ms by (simp flip: mset_append)
  ultimately have "mset (take (Suc m) ?r) = mset (take (Suc m) t)" by simp
  then have "set (take (Suc m) ?r) = set (take (Suc m) t)" by (rule mset_eq_setD)
  moreover have "?r ! p \<in> set (take (Suc m) ?r)"
    using assms(2,4) by (auto simp: in_set_conv_nth intro!: exI [of _ p])
  ultimately have "?r ! p \<in> set (take (Suc m) t)" by simp
  then obtain q where "q < length (take (Suc m) t)" "take (Suc m) t ! q = ?r ! p"
    by (auto simp: in_set_conv_nth)
  then show ?thesis using assms(2) by (intro exI [of _ q]) auto
qed

lemma bubble_inv_step:
  assumes inv: "bubble_inv n i t" and i: "i < n - 1"
  shows "bubble_inv n (i + 1) (bubble_inner 0 (n - i - 1) t)"
proof -
  let ?m = "n - i - 1"
  let ?r = "bubble_inner 0 ?m t"
  have len: "length t = n" using inv by (simp add: bubble_inv_def)
  have m: "?m < length t" "n - (i + 1) = ?m" "n - i = Suc ?m" using i len by auto
  from bubble_inner_spec [of 0 ?m t] m
  have mx: "\<And>k. k \<le> ?m \<Longrightarrow> ?r ! k \<le> ?r ! ?m" and rest: "\<And>k. ?m < k \<Longrightarrow> ?r ! k = t ! k"
    by auto
  have pre: "\<exists>p'\<le>?m. ?r ! p = t ! p'" if "p \<le> ?m" for p
    using bubble_inner_prefix [of 0 ?m t p] m that by auto
  have low: "?r ! p \<le> t ! q" if "p \<le> ?m" "?m < q" "q < n" for p q
  proof -
    from pre [OF that(1)] obtain p' where p': "p' \<le> ?m" "?r ! p = t ! p'" by auto
    have "t ! p' \<le> t ! q" using inv p'(1) that(2,3) m(3) by (simp add: bubble_inv_def)
    then show ?thesis using p'(2) by simp
  qed
  have A: "?r ! p \<le> ?r ! q" if "?m \<le> p" "p \<le> q" "q < n" for p q
  proof (cases "p = ?m")
    case True
    show ?thesis
    proof (cases "q = ?m")
      case True
      with \<open>p = ?m\<close> show ?thesis by simp
    next
      case False
      with that True have "?m < q" by simp
      then show ?thesis using low [of p q] that True rest [of q] by simp
    qed
  next
    case False
    with that have "?m < p" "?m < q" by auto
    moreover have "t ! p \<le> t ! q" using inv that \<open>?m < p\<close> m(3) by (simp add: bubble_inv_def)
    ultimately show ?thesis using rest by simp
  qed
  have B: "?r ! p \<le> ?r ! q" if "p < ?m" "?m \<le> q" "q < n" for p q
  proof (cases "q = ?m")
    case True
    then show ?thesis using mx [of p] that by simp
  next
    case False
    with that have "?m < q" by simp
    then show ?thesis using low [of p q] that rest [of q] by simp
  qed
  show ?thesis unfolding bubble_inv_def m(2) using len A B by simp
qed

lemma bubble_outer_length [simp]: "length (bubble_outer i n t) = length t"
proof (induction i n t rule: bubble_outer.induct)
  case (1 i n t)
  then show ?case by (subst bubble_outer.simps) simp
qed

lemma bubble_outer_mset: "length t = n \<Longrightarrow> mset (bubble_outer i n t) = mset t"
proof (induction i n t rule: bubble_outer.induct)
  case (1 i n t)
  show ?case
  proof (cases "i < n - 1")
    case True
    have "mset (bubble_inner 0 (n - i - 1) t) = mset t"
      using bubble_inner_spec [of 0 "n - i - 1" t] True "1.prems" by auto
    then show ?thesis using "1.IH" [OF True] "1.prems" True
      by (subst bubble_outer.simps) simp
  next
    case False
    then show ?thesis by (subst bubble_outer.simps) simp
  qed
qed

lemma bubble_outer_sorted:
  "bubble_inv n i t \<Longrightarrow> i \<le> n - 1 \<Longrightarrow> sorted (bubble_outer i n t)"
proof (induction i n t rule: bubble_outer.induct)
  case (1 i n t)
  show ?case
  proof (cases "i < n - 1")
    case True
    have "bubble_inv n (i + 1) (bubble_inner 0 (n - i - 1) t)"
      using bubble_inv_step [OF "1.prems"(1) True] .
    then show ?thesis using "1.IH" [OF True] True
      by (subst bubble_outer.simps) simp
  next
    case False
    with "1.prems" have i: "i = n - 1" by simp
    have eq: "bubble_outer i n t = t" using False by (subst bubble_outer.simps) simp
    have "t ! p \<le> t ! q" if "p \<le> q" "q < length t" for p q
    proof (cases "p = 0")
      case True
      show ?thesis
      proof (cases "q = 0")
        case True
        with \<open>p = 0\<close> show ?thesis by simp
      next
        case False
        then show ?thesis using "1.prems"(1) that True i
          by (auto simp: bubble_inv_def)
      qed
    next
      case False
      then show ?thesis using "1.prems"(1) that i
        by (auto simp: bubble_inv_def)
    qed
    then show ?thesis unfolding eq by (auto simp: sorted_iff_nth_mono)
  qed
qed

lemma bubble_sort_sorted: "length t = n \<Longrightarrow> sorted (bubble_sort n t)"
  unfolding bubble_sort_def
  by (rule bubble_outer_sorted) (auto simp: bubble_inv_def)

lemma bubble_sort_mset: "length t = n \<Longrightarrow> mset (bubble_sort n t) = mset t"
  unfolding bubble_sort_def by (rule bubble_outer_mset)

lemma bubble_sort_eq_sort: "length t = n \<Longrightarrow> bubble_sort n t = sort t"
  by (metis bubble_sort_sorted bubble_sort_mset properties_for_sort)

subsection \<open>The median of a sorted list\<close>

lemma sorted_below_count:
  assumes "sorted ys" "k < length ys"
  shows "length (filter (\<lambda>x. x < ys ! k) ys) \<le> k"
proof -
  have "filter (\<lambda>x. x < ys ! k) (drop k ys) = []"
  proof -
    have "ys ! k \<le> x" if "x \<in> set (drop k ys)" for x
    proof -
      from that obtain i where "i < length (drop k ys)" "drop k ys ! i = x"
        by (auto simp: in_set_conv_nth)
      then show ?thesis using assms sorted_nth_mono [of ys k "k + i"] by simp
    qed
    then show ?thesis by (fastforce simp: filter_empty_conv)
  qed
  then have "filter (\<lambda>x. x < ys ! k) ys = filter (\<lambda>x. x < ys ! k) (take k ys)"
    by (metis append_Nil2 append_take_drop_id filter_append)
  moreover have "length (filter (\<lambda>x. x < ys ! k) (take k ys)) \<le> length (take k ys)"
    by (rule length_filter_le)
  ultimately show ?thesis using assms(2) by simp
qed

lemma sorted_above_count:
  assumes "sorted ys" "k < length ys"
  shows "length (filter (\<lambda>x. x > ys ! k) ys) \<le> length ys - k - 1"
proof -
  have "filter (\<lambda>x. x > ys ! k) (take (Suc k) ys) = []"
  proof -
    have "x \<le> ys ! k" if "x \<in> set (take (Suc k) ys)" for x
    proof -
      from that obtain i where "i < length (take (Suc k) ys)" "take (Suc k) ys ! i = x"
        by (auto simp: in_set_conv_nth)
      then show ?thesis using assms sorted_nth_mono [of ys i k] by simp
    qed
    then show ?thesis by (fastforce simp: filter_empty_conv)
  qed
  then have "filter (\<lambda>x. x > ys ! k) ys = filter (\<lambda>x. x > ys ! k) (drop (Suc k) ys)"
    by (metis append_Nil append_take_drop_id filter_append)
  moreover have "length (filter (\<lambda>x. x > ys ! k) (drop (Suc k) ys)) \<le> length (drop (Suc k) ys)"
    by (rule length_filter_le)
  ultimately show ?thesis by simp
qed

lemma filter_length_mset:
  "mset xs = mset ys \<Longrightarrow> length (filter P xs) = length (filter P ys)"
  by (metis mset_filter size_mset)

lemma median_filter_sort: "length t = n \<Longrightarrow> median_filter n t = sort t ! (n div 2)"
  by (simp add: median_filter_def bubble_sort_eq_sort)

lemma median_filter_member:
  assumes "length t = n" "0 < n"
  shows "median_filter n t \<in> set t"
proof -
  have "n div 2 < length (sort t)" using assms by simp
  then have "sort t ! (n div 2) \<in> set (sort t)" by (rule nth_mem)
  then show ?thesis using assms(1) by (simp add: median_filter_sort)
qed

lemma median_filter_below:
  assumes "length t = n" "0 < n"
  shows "length (filter (\<lambda>x. x < median_filter n t) t) \<le> n div 2"
proof -
  have "length (filter (\<lambda>x. x < sort t ! (n div 2)) (sort t)) \<le> n div 2"
    using assms by (intro sorted_below_count) auto
  moreover have "mset t = mset (sort t)" by simp
  ultimately show ?thesis
    using filter_length_mset [of t "sort t"] assms(1) by (simp add: median_filter_sort)
qed

lemma median_filter_above:
  assumes "length t = n" "0 < n"
  shows "length (filter (\<lambda>x. x > median_filter n t) t) \<le> n - n div 2 - 1"
proof -
  have "length (filter (\<lambda>x. x > sort t ! (n div 2)) (sort t)) \<le> length (sort t) - n div 2 - 1"
    using assms by (intro sorted_above_count) auto
  moreover have "mset t = mset (sort t)" by simp
  ultimately show ?thesis
    using filter_length_mset [of t "sort t"] assms(1) by (simp add: median_filter_sort)
qed

lemma median_filter_steady: "0 < n \<Longrightarrow> median_filter n (map (steady v) [0..<n]) = v"
  using median_filter_member [of "map (steady v) [0..<n]" n] by (auto simp: steady_def)

text \<open>
  C3. For every odd \<open>N\<close> and every sequence of \<open>N\<close> raw readings, the filter of
  \<open>readSensor\<close> (bubble sort, then the element at index \<open>N / 2\<close>) returns the element at
  position \<open>N / 2\<close> of the sequence sorted in ascending order; this value occurs in the
  sequence, at most \<open>\<lceil>N/2\<rceil> - 1\<close> readings are strictly below it and at most
  \<open>\<lceil>N/2\<rceil> - 1\<close> are strictly above it.
\<close>

theorem median_filter_median:
  assumes "length t = n" "odd n"
  shows "median_filter n t = sort t ! (n div 2)
       \<and> median_filter n t \<in> set t
       \<and> length (filter (\<lambda>x. x < median_filter n t) t) \<le> (n + 1) div 2 - 1
       \<and> length (filter (\<lambda>x. x > median_filter n t) t) \<le> (n + 1) div 2 - 1"
proof -
  from assms(2) have pos: "0 < n" by (cases n) auto
  from assms(2) have half: "(n + 1) div 2 - 1 = n div 2" "n - n div 2 - 1 = n div 2"
    by presburger+
  show ?thesis
    using median_filter_sort [OF assms(1)] median_filter_member [OF assms(1) pos]
      median_filter_below [OF assms(1) pos] median_filter_above [OF assms(1) pos]
    by (simp only: half)
qed

theorem median_filter_median_witness:
  "length [612, 3, 598, 1020, 601 :: int] = 5 \<and> odd (5 :: nat)
   \<and> median_filter 5 [612, 3, 598, 1020, 601] = 601
   \<and> sort [612, 3, 598, 1020, 601 :: int] ! (5 div 2) = 601
   \<and> median_filter 5 [612, 3, 598, 1020, 601] \<in> set [612, 3, 598, 1020, 601]
   \<and> length (filter (\<lambda>x. x < median_filter 5 [612, 3, 598, 1020, 601]) [612, 3, 598, 1020, 601]) \<le> 2"
proof -
  have s: "sort [612, 3, 598, 1020, 601 :: int] ! (5 div 2) = 601" by code_simp
  show ?thesis
    using median_filter_median [of "[612, 3, 598, 1020, 601]" 5] s by simp
qed

subsection \<open>The percentage mapping\<close>

lemma map_arduino_spec:
  "map_arduino average dryValue wetValue 0 100 = c_div ((average - dryValue) * 100) (wetValue - dryValue)"
  by (simp add: map_arduino_def)

lemma constrain_range: "low \<le> high \<Longrightarrow> low \<le> constrain amt low high \<and> constrain amt low high \<le> high"
  by (simp add: constrain_def)

lemma to_percentage_range: "0 \<le> to_percentage x a w \<and> to_percentage x a w \<le> 100"
  unfolding to_percentage_def by (rule constrain_range) simp

lemma to_percentage_dry: "to_percentage a a w = 0"
  by (simp add: to_percentage_def map_arduino_def c_div_def constrain_def)

lemma to_percentage_wet: "w \<noteq> a \<Longrightarrow> to_percentage w a w = 100"
proof -
  assume "w \<noteq> a"
  then have "0 < \<bar>w - a\<bar>" by simp
  then have "(\<bar>w - a\<bar> * 100) div \<bar>w - a\<bar> = 100"
    by (simp only: nonzero_mult_div_cancel_left)
  then have "\<bar>(w - a) * 100\<bar> div \<bar>w - a\<bar> = 100"
    by (simp only: abs_mult abs_numeral)
  moreover have "((w - a) * 100 < 0) = (w - a < 0)"
    by (simp add: mult_less_0_iff)
  ultimately show ?thesis
    by (simp add: to_percentage_def map_arduino_def c_div_def constrain_def)
qed

lemma to_percentage_beyond_dry:
  assumes "w < a" "a \<le> x"
  shows "to_percentage x a w = 0"
proof -
  have "c_div ((x - a) * 100) (w - a) \<le> 0"
    using assms by (auto simp: c_div_def mult_less_0_iff intro!: pos_imp_zdiv_nonneg_iff [THEN iffD2])
  then show ?thesis
    by (simp add: to_percentage_def map_arduino_def constrain_def)
qed

lemma to_percentage_beyond_wet:
  assumes "w < a" "x \<le> w"
  shows "to_percentage x a w = 100"
proof -
  have neg: "(x - a) * 100 < 0" "w - a < 0" using assms by (auto simp: mult_less_0_iff)
  have "100 * (a - w) \<le> (a - x) * 100" using assms by simp
  then have "(100 * (a - w)) div (a - w) \<le> ((a - x) * 100) div (a - w)"
    using assms(1) by (intro zdiv_mono1) auto
  moreover have "(100 * (a - w)) div (a - w) = 100"
    using assms(1) by (simp only: nonzero_mult_div_cancel_right)
  ultimately have "100 \<le> ((a - x) * 100) div (a - w)" by (simp only:)
  moreover have "\<bar>(x - a) * 100\<bar> = (a - x) * 100" "\<bar>w - a\<bar> = a - w" using assms by auto
  ultimately have "100 \<le> c_div ((x - a) * 100) (w - a)"
    using neg by (simp add: c_div_def)
  then show ?thesis
    by (simp add: to_percentage_def map_arduino_def constrain_def)
qed

subsection \<open>Serial lines of a list of events\<close>

lemma serial_lines_append:
  "serial_lines (a @ b) cur = serial_lines a cur @ serial_lines b (pending a cur)"
  by (induction a cur rule: serial_lines.induct) simp_all

lemma pending_append: "pending (a @ b) cur = pending b (pending a cur)"
  by (induction a cur rule: pending.induct) simp_all

lemma sample_events_serial [simp]:
  "serial_lines (sample_events pin smp) cur = []" "pending (sample_events pin smp) cur = cur"
  by (simp_all add: sample_events_def numReadings_def eval_nat_numeral serial_lines_append pending_append)

lemma sample_events_reads:
  "filter is_analog_read (sample_events pin smp) = map (\<lambda>i. AnalogRead pin (smp i)) [0..<numReadings]"
  by (simp add: sample_events_def numReadings_def eval_nat_numeral)

subsection \<open>checkSensor\<close>

lemma checkSensor_result:
  "fst (checkSensor pin r e) = (\<not> out_of_range r)"
  "fst (snd (checkSensor pin r e)) = out_of_range r"
  by (auto simp: checkSensor_def out_of_range_def Let_def)

lemma checkSensor_lines:
  "serial_lines (snd (snd (checkSensor pin r e))) [] = (if out_of_range r \<and> \<not> e then [error_line pin] else [])"
  "pending (snd (snd (checkSensor pin r e))) [] = []"
  by (auto simp: checkSensor_def out_of_range_def Let_def error_line_def)

lemma checkSensor_reads:
  "filter is_analog_read (snd (snd (checkSensor pin r e))) = [AnalogRead pin r]"
  by (auto simp: checkSensor_def Let_def)

subsection \<open>readSensor\<close>

lemma readSensor_valid:
  assumes "\<not> out_of_range tr"
  shows "fst (readSensor pin pw idx tr smp a w ch) =
    ch\<lparr> readings := (readings ch)[idx := median_filter numReadings (map smp [0..<numReadings])],
        totalReading := totalReading ch - readings ch ! idx + median_filter numReadings (map smp [0..<numReadings]),
        rawValue := median_filter numReadings (map smp [0..<numReadings]),
        percentage := to_percentage
          (c_div (totalReading ch - readings ch ! idx + median_filter numReadings (map smp [0..<numReadings])) (int numReadings)) a w,
        lastGoodReading := median_filter numReadings (map smp [0..<numReadings]),
        sensorError := False \<rparr>"
  using assms checkSensor_result [of pin tr "sensorError ch"]
  by (cases "checkSensor pin tr (sensorError ch)") (simp add: readSensor_def Let_def)

lemma readSensor_invalid:
  assumes "out_of_range tr"
  shows "fst (readSensor pin pw idx tr smp a w ch) =
    (if lastGoodReading ch \<noteq> - 1
     then ch\<lparr> rawValue := lastGoodReading ch,
              percentage := to_percentage (lastGoodReading ch) a w, sensorError := True \<rparr>
     else ch\<lparr> sensorError := True \<rparr>)"
  using assms checkSensor_result [of pin tr "sensorError ch"]
  by (cases "checkSensor pin tr (sensorError ch)") (simp add: readSensor_def Let_def)

lemma readSensor_lines:
  "serial_lines (snd (readSensor pin pw idx tr smp a w ch)) [] =
     (if out_of_range tr
      then (if sensorError ch then [] else [error_line pin]) @
           (if lastGoodReading ch \<noteq> - 1 then [warning_line pin (lastGoodReading ch)] else [])
      else [])"
  "pending (snd (readSensor pin pw idx tr smp a w ch)) [] = []"
  using checkSensor_result [of pin tr "sensorError ch"] checkSensor_lines [of pin tr "sensorError ch"]
  by (cases "checkSensor pin tr (sensorError ch)";
      simp add: readSensor_def Let_def serial_lines_append pending_append warning_line_def)+

lemma readSensor_reads:
  "filter is_analog_read (snd (readSensor pin pw idx tr smp a w ch)) =
     AnalogRead pin tr #
       (if out_of_range tr then [] else map (\<lambda>i. AnalogRead pin (smp i)) [0..<numReadings])"
  using checkSensor_result [of pin tr "sensorError ch"] checkSensor_reads [of pin tr "sensorError ch"]
  by (cases "checkSensor pin tr (sensorError ch)")
     (simp add: readSensor_def Let_def sample_events_reads)

lemma readSensor_percentage_range:
  assumes "0 \<le> percentage ch" "percentage ch \<le> 100"
  shows "0 \<le> percentage (fst (readSensor pin pw idx tr smp a w ch))
       \<and> percentage (fst (readSensor pin pw idx tr smp a w ch)) \<le> 100"
proof (cases "out_of_range tr")
  case True
  then show ?thesis using assms to_percentage_range [of "lastGoodReading ch" a w]
    by (simp add: readSensor_invalid)
next
  case False
  then show ?thesis
    using to_percentage_range by (simp add: readSensor_valid)
qed

lemma readSoilMoisture_percentage:
  "moisturePercentage (fst (readSoilMoisture r s)) = to_percentage r airValue waterValue"
  "rawMoistureValue (fst (readSoilMoisture r s)) = r"
  by (simp_all add: readSoilMoisture_def to_percentage_def Let_def)

text \<open>
  What holds of the percentage in both sketches. The mapping is \<open>map\<close> followed by
  \<open>constrain\<close> (\<open>to_percentage\<close>). For every input it lies between 0 and 100. With the
  dry calibration value above the wet one, an input equal to the dry value gives 0, an input
  equal to the wet value gives 100, every input at or above the dry value gives 0 and every
  input at or below the wet value gives 100. In the single-sensor sketch the input of the
  mapping is the raw reading. In the enhanced sketch the variable \<open>percentage\<close> stays
  between 0 and 100 over every call of \<open>readSensor\<close>, whichever branch it takes; what
  \<open>readSensor\<close> gives to the mapping is treated further below.
\<close>

lemma percentage_clamped:
  assumes "w < a" and "0 \<le> percentage ch" and "percentage ch \<le> 100"
  shows "0 \<le> to_percentage x a w \<and> to_percentage x a w \<le> 100
       \<and> to_percentage a a w = 0 \<and> to_percentage w a w = 100
       \<and> (\<forall>y\<ge>a. to_percentage y a w = 0) \<and> (\<forall>y\<le>w. to_percentage y a w = 100)
       \<and> moisturePercentage (fst (readSoilMoisture r s)) = to_percentage r airValue waterValue
       \<and> 0 \<le> moisturePercentage (fst (readSoilMoisture r s))
       \<and> moisturePercentage (fst (readSoilMoisture r s)) \<le> 100
       \<and> 0 \<le> percentage (fst (readSensor pin pw idx tr smp a w ch))
       \<and> percentage (fst (readSensor pin pw idx tr smp a w ch)) \<le> 100"
proof -
  have "w \<noteq> a" using assms(1) by simp
  then show ?thesis
    using to_percentage_range [of x a w] to_percentage_dry [of a w] to_percentage_wet [of w a]
      to_percentage_beyond_dry [OF assms(1)] to_percentage_beyond_wet [OF assms(1)]
      readSoilMoisture_percentage(1) [of r s] to_percentage_range [of r airValue waterValue]
      readSensor_percentage_range [OF assms(2,3), of pin pw idx tr smp a w]
    by simp
qed

lemma to_percentage_600: "to_percentage 600 1023 300 = 58"
  by (simp add: to_percentage_def map_arduino_def c_div_def constrain_def)

lemma percentage_clamped_examples:
  "(300 :: int) < 1023 \<and> 0 \<le> percentage channel_init \<and> percentage channel_init \<le> 100
   \<and> to_percentage 600 1023 300 = 58
   \<and> to_percentage 1023 1023 300 = 0 \<and> to_percentage 300 1023 300 = 100
   \<and> to_percentage 2000 1023 300 = 0 \<and> to_percentage (- 50) 1023 300 = 100
   \<and> moisturePercentage (fst (readSoilMoisture 600 single_init)) = 58
   \<and> 0 \<le> percentage (fst (readSensor moistureSensorA0 sensorPowerPinA0 0 1023 (steady 1023) 1023 300 channel_init))
   \<and> percentage (fst (readSensor moistureSensorA0 sensorPowerPinA0 0 1023 (steady 1023) 1023 300 channel_init)) \<le> 100"
proof -
  have h: "(300 :: int) < 1023" "0 \<le> percentage channel_init" "percentage channel_init \<le> 100"
    by (simp_all add: channel_init_def)
  from percentage_clamped [OF h, of 600 600 single_init moistureSensorA0 sensorPowerPinA0 0 1023 "steady 1023"]
  show ?thesis using h to_percentage_600
    by (simp add: airValue_def waterValue_def)
qed

subsection \<open>The sticky error flag\<close>

lemma checkSensor_run_Cons:
  "checkSensor_run pin e (r # rs) =
     (out_of_range r, if out_of_range r \<and> \<not> e then 1 else 0) # checkSensor_run pin (out_of_range r) rs"
  using checkSensor_result [of pin r e] checkSensor_lines(1) [of pin r e]
  by (cases "checkSensor pin r e") simp

declare checkSensor_run.simps(2) [simp del]

lemma checkSensor_run_nth:
  "k < length rs \<Longrightarrow>
   checkSensor_run pin e rs ! k =
     (out_of_range (rs ! k),
      if out_of_range (rs ! k) \<and> \<not> (if k = 0 then e else out_of_range (rs ! (k - 1))) then 1 else 0)"
proof (induction rs arbitrary: k e)
  case Nil
  then show ?case by simp
next
  case (Cons r rs)
  show ?case
  proof (cases k)
    case 0
    then show ?thesis by (simp add: checkSensor_run_Cons)
  next
    case (Suc k')
    with Cons.prems have "k' < length rs" by simp
    from Cons.IH [OF this, of "out_of_range r"] Suc show ?thesis
      by (cases k') (simp_all add: checkSensor_run_Cons)
  qed
qed

text \<open>
  C4. Over every sequence of readings given to \<open>checkSensor\<close> for a sensor, from any
  starting flag: after each reading the flag \<open>sensorError\<close> tells whether that reading was
  out of range, so it is set during a run of invalid readings and false again after the next
  valid one; and the call prints a line exactly when its reading is invalid and the flag was
  false before it, that is at the first reading of each run and at no later reading of the
  run. The line printed is the out-of-range diagnostic.
\<close>

theorem sticky_error_edge:
  assumes "k < length rs"
  shows "fst (checkSensor_run pin e rs ! k) = out_of_range (rs ! k)
       \<and> snd (checkSensor_run pin e rs ! k) =
           (if out_of_range (rs ! k) \<and> \<not> (if k = 0 then e else fst (checkSensor_run pin e rs ! (k - 1)))
            then 1 else 0)
       \<and> snd (checkSensor_run pin e rs ! k) =
           (if out_of_range (rs ! k) \<and> \<not> (if k = 0 then e else out_of_range (rs ! (k - 1)))
            then 1 else 0)
       \<and> serial_lines (snd (snd (checkSensor pin r e))) [] =
           (if out_of_range r \<and> \<not> e then [error_line pin] else [])"
proof -
  have "k - 1 < length rs" using assms by simp
  then show ?thesis
    using checkSensor_run_nth [OF assms, of pin e] checkSensor_run_nth [of "k - 1" rs pin e]
      checkSensor_lines(1) [of pin r e]
    by simp
qed

theorem sticky_error_edge_witness:
  "(1 :: nat) < length [600, 1023, 0, 600 :: int]
   \<and> checkSensor_run moistureSensorA0 False [600, 1023, 0, 600] ! 1 = (True, 1)
   \<and> (2 :: nat) < length [600, 1023, 0, 600 :: int]
   \<and> checkSensor_run moistureSensorA0 False [600, 1023, 0, 600] ! 2 = (True, 0)
   \<and> (3 :: nat) < length [600, 1023, 0, 600 :: int]
   \<and> checkSensor_run moistureSensorA0 False [600, 1023, 0, 600] ! 3 = (False, 0)"
proof -
  have h: "(1 :: nat) < length [600, 1023, 0, 600 :: int]" "(2 :: nat) < length [600, 1023, 0, 600 :: int]"
    "(3 :: nat) < length [600, 1023, 0, 600 :: int]" by simp_all
  show ?thesis
    using sticky_error_edge [OF h(1), of moistureSensorA0 False]
      sticky_error_edge [OF h(2), of moistureSensorA0 False]
      sticky_error_edge [OF h(3), of moistureSensorA0 False]
    by (simp add: out_of_range_def prod_eq_iff)
qed

lemma checkSensor_run_script:
  "checkSensor_run moistureSensorA0 False [600, 1023, 1023, 600] = [(False, 0), (True, 1), (True, 0), (False, 0)]"
  by (simp add: checkSensor_run_Cons out_of_range_def)

subsection \<open>A cycle whose validation reading fails\<close>

lemma readSensor_cycles_never_good:
  assumes "\<forall>c\<in>set cs. out_of_range (fst c)" "lastGoodReading ch = - 1"
  shows "readSensor_cycles pin pw idx a w cs ch = ch\<lparr> sensorError := (if cs = [] then sensorError ch else True) \<rparr>"
  using assms
proof (induction cs arbitrary: ch)
  case Nil
  then show ?case by simp
next
  case (Cons c cs)
  let ?ch' = "fst (readSensor pin pw idx (fst c) (snd c) a w ch)"
  have step: "?ch' = ch\<lparr> sensorError := True \<rparr>"
    using Cons.prems by (simp add: readSensor_invalid)
  then have "lastGoodReading ?ch' = - 1" using Cons.prems(2) by simp
  with Cons.IH [of ?ch'] Cons.prems(1)
  have "readSensor_cycles pin pw idx a w cs ?ch' = ?ch'\<lparr> sensorError := (if cs = [] then sensorError ?ch' else True) \<rparr>"
    by simp
  then show ?case using step by simp
qed

text \<open>
  C5. In a call of \<open>readSensor\<close> whose validation reading is out of range: the sampling
  loop does not run (the validation read is the only \<open>analogRead\<close>), and the array
  \<open>readings\<close>, \<open>totalReading\<close> and \<open>lastGoodReading\<close> are left as they were. If there
  is a last good reading (\<open>lastGoodReading\<close> is not -1), \<open>rawValue\<close> becomes that value,
  \<open>percentage\<close> is computed from it and lies between 0 and 100, and the last line printed
  is the warning with that value. If there is none, \<open>rawValue\<close> and \<open>percentage\<close> are left
  as they were and no warning is printed (at most the out-of-range diagnostic). Over any
  number of such calls from a state with no last good reading, \<open>lastGoodReading\<close> is still
  -1 and \<open>rawValue\<close>, \<open>percentage\<close>, \<open>readings\<close> and \<open>totalReading\<close> are unchanged.
\<close>

theorem readSensor_fault_fallback:
  assumes "out_of_range tr" and "\<forall>c\<in>set cs. out_of_range (fst c)" and "lastGoodReading ch0 = - 1"
  shows "readings (fst (readSensor pin pw idx tr smp a w ch)) = readings ch
       \<and> totalReading (fst (readSensor pin pw idx tr smp a w ch)) = totalReading ch
       \<and> lastGoodReading (fst (readSensor pin pw idx tr smp a w ch)) = lastGoodReading ch
       \<and> filter is_analog_read (snd (readSensor pin pw idx tr smp a w ch)) = [AnalogRead pin tr]
       \<and> (if lastGoodReading ch \<noteq> - 1
          then rawValue (fst (readSensor pin pw idx tr smp a w ch)) = lastGoodReading ch
             \<and> percentage (fst (readSensor pin pw idx tr smp a w ch)) = to_percentage (lastGoodReading ch) a w
             \<and> 0 \<le> percentage (fst (readSensor pin pw idx tr smp a w ch))
             \<and> percentage (fst (readSensor pin pw idx tr smp a w ch)) \<le> 100
             \<and> serial_lines (snd (readSensor pin pw idx tr smp a w ch)) [] =
                 (if sensorError ch then [] else [error_line pin]) @ [warning_line pin (lastGoodReading ch)]
          else rawValue (fst (readSensor pin pw idx tr smp a w ch)) = rawValue ch
             \<and> percentage (fst (readSensor pin pw idx tr smp a w ch)) = percentage ch
             \<and> serial_lines (snd (readSensor pin pw idx tr smp a w ch)) [] =
                 (if sensorError ch then [] else [error_line pin]))
       \<and> lastGoodReading (readSensor_cycles pin pw idx a w cs ch0) = - 1
       \<and> rawValue (readSensor_cycles pin pw idx a w cs ch0) = rawValue ch0
       \<and> percentage (readSensor_cycles pin pw idx a w cs ch0) = percentage ch0
       \<and> readings (readSensor_cycles pin pw idx a w cs ch0) = readings ch0
       \<and> totalReading (readSensor_cycles pin pw idx a w cs ch0) = totalReading ch0"
proof -
  have one: "readings (fst (readSensor pin pw idx tr smp a w ch)) = readings ch
       \<and> totalReading (fst (readSensor pin pw idx tr smp a w ch)) = totalReading ch
       \<and> lastGoodReading (fst (readSensor pin pw idx tr smp a w ch)) = lastGoodReading ch"
    using assms(1) by (simp add: readSensor_invalid)
  have reads: "filter is_analog_read (snd (readSensor pin pw idx tr smp a w ch)) = [AnalogRead pin tr]"
    using assms(1) by (simp add: readSensor_reads)
  have branch: "(if lastGoodReading ch \<noteq> - 1
          then rawValue (fst (readSensor pin pw idx tr smp a w ch)) = lastGoodReading ch
             \<and> percentage (fst (readSensor pin pw idx tr smp a w ch)) = to_percentage (lastGoodReading ch) a w
             \<and> 0 \<le> percentage (fst (readSensor pin pw idx tr smp a w ch))
             \<and> percentage (fst (readSensor pin pw idx tr smp a w ch)) \<le> 100
             \<and> serial_lines (snd (readSensor pin pw idx tr smp a w ch)) [] =
                 (if sensorError ch then [] else [error_line pin]) @ [warning_line pin (lastGoodReading ch)]
          else rawValue (fst (readSensor pin pw idx tr smp a w ch)) = rawValue ch
             \<and> percentage (fst (readSensor pin pw idx tr smp a w ch)) = percentage ch
             \<and> serial_lines (snd (readSensor pin pw idx tr smp a w ch)) [] =
                 (if sensorError ch then [] else [error_line pin]))"
    using assms(1) to_percentage_range [of "lastGoodReading ch" a w]
    by (simp add: readSensor_invalid readSensor_lines)
  have many: "readSensor_cycles pin pw idx a w cs ch0 = ch0\<lparr> sensorError := (if cs = [] then sensorError ch0 else True) \<rparr>"
    using assms(2,3) by (rule readSensor_cycles_never_good)
  show ?thesis
    using one reads branch assms(3) by (simp only: many) simp
qed

theorem readSensor_fault_fallback_witness:
  "out_of_range 1023
   \<and> rawValue (fst (readSensor moistureSensorA0 sensorPowerPinA0 0 1023 (steady 1023) 1023 300
        (channel_init\<lparr> lastGoodReading := 600 \<rparr>))) = 600
   \<and> percentage (fst (readSensor moistureSensorA0 sensorPowerPinA0 0 1023 (steady 1023) 1023 300
        (channel_init\<lparr> lastGoodReading := 600 \<rparr>))) = 58
   \<and> serial_lines (snd (readSensor moistureSensorA0 sensorPowerPinA0 0 1023 (steady 1023) 1023 300
        (channel_init\<lparr> lastGoodReading := 600 \<rparr>))) [] =
        [error_line moistureSensorA0, warning_line moistureSensorA0 600]
   \<and> lastGoodReading (readSensor_cycles moistureSensorA0 sensorPowerPinA0 0 1023 300
        [(1023, steady 1023), (0, steady 0)] channel_init) = - 1
   \<and> rawValue (readSensor_cycles moistureSensorA0 sensorPowerPinA0 0 1023 300
        [(1023, steady 1023), (0, steady 0)] channel_init) = 0"
proof -
  have h: "out_of_range 1023" "\<forall>c\<in>set [(1023, steady 1023), (0, steady 0)]. out_of_range (fst c)"
    "lastGoodReading channel_init = - 1"
    by (simp_all add: out_of_range_def channel_init_def)
  from readSensor_fault_fallback [OF h, where pin = moistureSensorA0 and pw = sensorPowerPinA0
      and idx = 0 and smp = "steady 1023" and a = 1023 and w = 300
      and ch = "channel_init\<lparr> lastGoodReading := 600 \<rparr>"]
  show ?thesis using h(1) to_percentage_600
    by (simp add: channel_init_def)
qed

subsection \<open>readSensors, sendData and loop\<close>

declare dec_nat.simps [simp del]

lemma readSensors_state:
  "fst (readSensors inp st) =
     st\<lparr> chA0 := fst (readSensor moistureSensorA0 sensorPowerPinA0 (readIndex st)
                (testA0 inp) (samplesA0 inp) airValueA0 waterValueA0 (chA0 st)),
         chA1 := fst (readSensor moistureSensorA1 sensorPowerPinA1 (readIndex st)
                (testA1 inp) (samplesA1 inp) airValueA1 waterValueA1 (chA1 st)) \<rparr>"
  by (simp add: readSensors_def Let_def split_beta)

lemma readSensors_events:
  "snd (readSensors inp st) =
     snd (readSensor moistureSensorA0 sensorPowerPinA0 (readIndex st)
            (testA0 inp) (samplesA0 inp) airValueA0 waterValueA0 (chA0 st)) @
     snd (readSensor moistureSensorA1 sensorPowerPinA1 (readIndex st)
            (testA1 inp) (samplesA1 inp) airValueA1 waterValueA1 (chA1 st))"
  by (simp add: readSensors_def Let_def split_beta)

lemma error_line_diagnostic: "is_diagnostic (error_line pin)"
  by (simp add: is_diagnostic_def error_line_def)

lemma warning_line_diagnostic: "is_diagnostic (warning_line pin v)"
  by (simp add: is_diagnostic_def warning_line_def)

lemma readSensor_lines_diagnostic:
  "l \<in> set (serial_lines (snd (readSensor pin pw idx tr smp a w ch)) []) \<Longrightarrow> is_diagnostic l"
  by (auto simp: readSensor_lines(1) error_line_diagnostic warning_line_diagnostic split: if_splits)

lemma readSensors_lines:
  "\<forall>l\<in>set (serial_lines (snd (readSensors inp st)) []). is_diagnostic l"
  "pending (snd (readSensors inp st)) [] = []"
  by (auto simp: readSensors_events serial_lines_append pending_append readSensor_lines(2)
      dest: readSensor_lines_diagnostic)

lemma dec_nat_digit: "dec_nat n \<noteq> [] \<and> hd (dec_nat n) \<in> set ''0123456789''"
proof (induction n rule: dec_nat.induct)
  case (1 n)
  show ?case
  proof (cases "n < 10")
    case True
    then have "digit_char n \<in> set ''0123456789''"
      unfolding digit_char_def by (intro nth_mem) simp
    then show ?thesis using True by (subst (1 2) dec_nat.simps) simp
  next
    case False
    then show ?thesis using "1.IH" by (subst (1 2) dec_nat.simps) simp
  qed
qed

lemma data_line_not_diagnostic: "\<not> is_diagnostic (data_line ts x y)"
proof -
  obtain c cs where c: "dec_nat (unat ts) = c # cs" "c \<in> set ''0123456789''"
    using dec_nat_digit [of "unat ts"] by (cases "dec_nat (unat ts)") auto
  then show ?thesis
    by (auto simp: is_diagnostic_def data_line_def)
qed

lemma sendData_lines:
  "serial_lines (sendData ts st) [] = [data_line ts (rawValue (chA0 st)) (rawValue (chA1 st))]"
  "pending (sendData ts st) [] = []"
  by (simp_all add: sendData_def data_line_def)

lemma loop_idle: "\<not> fires inp st \<Longrightarrow> loop inp st = (st, [])"
  by (simp add: loop_def fires_def)

lemma loop_fired:
  "fires inp st \<Longrightarrow> loop inp st =
     ((fst (readSensors inp st))\<lparr> lastSendTime := t_end inp \<rparr>,
      snd (readSensors inp st) @ sendData (t_stamp inp) (fst (readSensors inp st)))"
  by (simp add: loop_def fires_def Let_def split_beta)

lemma sendData_nonempty: "sendData ts st \<noteq> []"
  by (simp add: sendData_def)

lemma loop_events_iff: "snd (loop inp st) \<noteq> [] \<longleftrightarrow> fires inp st"
  by (cases "fires inp st") (simp_all add: loop_idle loop_fired sendData_nonempty)

lemma loop_lastSendTime:
  "lastSendTime (fst (loop inp st)) = (if fires inp st then t_end inp else lastSendTime st)"
  by (cases "fires inp st") (simp_all add: loop_idle loop_fired)

lemma loop_readIndex: "readIndex (fst (loop inp st)) = readIndex st"
  by (cases "fires inp st") (simp_all add: loop_idle loop_fired readSensors_state)

lemma loop_fired_lines:
  assumes "fires inp st"
  shows "serial_lines (snd (loop inp st)) [] =
     serial_lines (snd (readSensors inp st)) [] @
       [data_line (t_stamp inp) (rawValue (chA0 (fst (loop inp st)))) (rawValue (chA1 (fst (loop inp st))))]"
    and "pending (snd (loop inp st)) [] = []"
  using assms
  by (simp_all add: loop_fired serial_lines_append pending_append readSensors_lines(2) sendData_lines)

text \<open>
  C9. A pass of \<open>loop\<close> that runs a cycle prints, after the diagnostics of that cycle's
  reads if there are any, exactly one line that is not a diagnostic: the data line, made of
  the timestamp, \<open>rawValueA0\<close> and \<open>rawValueA1\<close> in this order, with the values these
  variables have after that cycle's reads (the raw values, not \<open>percentageA0\<close> or
  \<open>percentageA1\<close>). The line is complete when the pass ends: nothing is left unfinished
  for a later pass. A pass that does not run a cycle prints nothing.
\<close>

theorem one_data_line_per_cycle:
  "if fires inp st
   then serial_lines (snd (loop inp st)) [] =
          serial_lines (snd (readSensors inp st)) [] @
            [data_line (t_stamp inp) (rawValue (chA0 (fst (loop inp st)))) (rawValue (chA1 (fst (loop inp st))))]
      \<and> filter (\<lambda>l. \<not> is_diagnostic l) (serial_lines (snd (loop inp st)) []) =
            [data_line (t_stamp inp) (rawValue (chA0 (fst (loop inp st)))) (rawValue (chA1 (fst (loop inp st))))]
      \<and> data_line (t_stamp inp) (rawValue (chA0 (fst (loop inp st)))) (rawValue (chA1 (fst (loop inp st)))) =
            dec_nat (unat (t_stamp inp)) @ '','' @ dec_int (rawValue (chA0 (fst (readSensors inp st))))
              @ '','' @ dec_int (rawValue (chA1 (fst (readSensors inp st))))
      \<and> pending (snd (loop inp st)) [] = []
   else snd (loop inp st) = []"
proof (cases "fires inp st")
  case True
  have "filter (\<lambda>l. \<not> is_diagnostic l) (serial_lines (snd (readSensors inp st)) []) = []"
    using readSensors_lines(1) [of inp st] by (simp add: filter_empty_conv)
  then show ?thesis
    using True loop_fired_lines [OF True] data_line_not_diagnostic
    by (simp add: data_line_def loop_fired)
next
  case False
  then show ?thesis by (simp add: loop_idle)
qed

subsection \<open>Evaluating a pass of loop\<close>

lemma setup_sketch_state:
  "fst (setup_sketch t0 t1 sketch_init) =
     sketch_init\<lparr> chA0 := channel_init\<lparr> sensorError := out_of_range t0 \<rparr>,
                  chA1 := channel_init\<lparr> sensorError := out_of_range t1 \<rparr> \<rparr>"
  using checkSensor_result(2) [of moistureSensorA0 t0 False]
    checkSensor_result(2) [of moistureSensorA1 t1 False]
  by (cases "checkSensor moistureSensorA0 t0 False"; cases "checkSensor moistureSensorA1 t1 False")
     (simp add: setup_sketch_def Let_def sketch_init_def channel_init_def)

lemma median_filter_steady5 [simp]:
  "median_filter numReadings (map (steady v) [0..<numReadings]) = v"
  by (rule median_filter_steady) (simp add: numReadings_def)

lemma loop_steady_valid:
  assumes "fires (steady_cycle t t' v0 v1) st" "\<not> out_of_range v0" "\<not> out_of_range v1"
  shows "fst (loop (steady_cycle t t' v0 v1) st) =
    st\<lparr> chA0 := (chA0 st)\<lparr>
            readings := (readings (chA0 st))[readIndex st := v0],
            totalReading := totalReading (chA0 st) - readings (chA0 st) ! readIndex st + v0,
            rawValue := v0,
            percentage := to_percentage
              (c_div (totalReading (chA0 st) - readings (chA0 st) ! readIndex st + v0) (int numReadings))
              airValueA0 waterValueA0,
            lastGoodReading := v0, sensorError := False \<rparr>,
         chA1 := (chA1 st)\<lparr>
            readings := (readings (chA1 st))[readIndex st := v1],
            totalReading := totalReading (chA1 st) - readings (chA1 st) ! readIndex st + v1,
            rawValue := v1,
            percentage := to_percentage
              (c_div (totalReading (chA1 st) - readings (chA1 st) ! readIndex st + v1) (int numReadings))
              airValueA1 waterValueA1,
            lastGoodReading := v1, sensorError := False \<rparr>,
         lastSendTime := t' \<rparr>"
  using assms
  by (simp add: loop_fired readSensors_state readSensor_valid steady_cycle_def)

lemma channel_init_eval:
  "channel_init = \<lparr> readings = [0, 0, 0, 0, 0], totalReading = 0, rawValue = 0,
     percentage = 0, lastGoodReading = - 1, sensorError = False \<rparr>"
  by (simp add: channel_init_def numReadings_def eval_nat_numeral)

lemma loop_events_empty: "snd (loop inp st) = [] \<longleftrightarrow> \<not> fires inp st"
  using loop_events_iff [of inp st] by blast

lemma loop_data_line:
  assumes "fires inp st"
  shows "filter (\<lambda>l. \<not> is_diagnostic l) (serial_lines (snd (loop inp st)) []) =
     [data_line (t_stamp inp) (rawValue (chA0 (fst (loop inp st)))) (rawValue (chA1 (fst (loop inp st))))]"
proof -
  have "filter (\<lambda>l. \<not> is_diagnostic l) (serial_lines (snd (readSensors inp st)) []) = []"
    using readSensors_lines(1) [of inp st] by (simp add: filter_empty_conv)
  then show ?thesis
    using loop_fired_lines(1) [OF assms] data_line_not_diagnostic by simp
qed

lemma run_loops_nth:
  "k < length inps \<Longrightarrow>
   run_loops inps st ! k = loop (inps ! k) (if k = 0 then st else fst (run_loops inps st ! (k - 1)))"
proof (induction inps arbitrary: k st)
  case Nil
  then show ?case by simp
next
  case (Cons inp rest)
  show ?case
  proof (cases k)
    case 0
    then show ?thesis by simp
  next
    case (Suc k')
    with Cons.prems have "k' < length rest" by simp
    from Cons.IH [OF this, of "fst (loop inp st)"] Suc show ?thesis
      by (cases k') simp_all
  qed
qed

lemma run_loops_readIndex:
  "k < length inps \<Longrightarrow> readIndex (fst (run_loops inps st ! k)) = readIndex st"
proof (induction inps arbitrary: k st)
  case Nil
  then show ?case by simp
next
  case (Cons inp rest)
  show ?case
  proof (cases k)
    case 0
    then show ?thesis by (simp add: loop_readIndex)
  next
    case (Suc k')
    with Cons.prems have "k' < length rest" by simp
    from Cons.IH [OF this, of "fst (loop inp st)"] Suc show ?thesis
      by (simp add: loop_readIndex)
  qed
qed

subsection \<open>A sensor that never gives a valid reading\<close>

lemma loop_never_good_A0:
  assumes "out_of_range (testA0 inp)" "lastGoodReading (chA0 st) = - 1"
  shows "rawValue (chA0 (fst (loop inp st))) = rawValue (chA0 st)
       \<and> lastGoodReading (chA0 (fst (loop inp st))) = - 1"
  using assms
  by (cases "fires inp st") (simp_all add: loop_idle loop_fired readSensors_state readSensor_invalid)

lemma loop_never_good_A1:
  assumes "out_of_range (testA1 inp)" "lastGoodReading (chA1 st) = - 1"
  shows "rawValue (chA1 (fst (loop inp st))) = rawValue (chA1 st)
       \<and> lastGoodReading (chA1 (fst (loop inp st))) = - 1"
  using assms
  by (cases "fires inp st") (simp_all add: loop_idle loop_fired readSensors_state readSensor_invalid)

lemma run_loops_never_good_A0:
  assumes "\<forall>inp\<in>set inps. out_of_range (testA0 inp)" "k < length inps" "lastGoodReading (chA0 st) = - 1"
  shows "rawValue (chA0 (fst (run_loops inps st ! k))) = rawValue (chA0 st)
       \<and> lastGoodReading (chA0 (fst (run_loops inps st ! k))) = - 1"
  using assms
proof (induction inps arbitrary: k st)
  case Nil
  then show ?case by simp
next
  case (Cons inp rest)
  have step: "rawValue (chA0 (fst (loop inp st))) = rawValue (chA0 st)
       \<and> lastGoodReading (chA0 (fst (loop inp st))) = - 1"
    using Cons.prems(1,3) by (intro loop_never_good_A0) simp_all
  show ?case
  proof (cases k)
    case 0
    then show ?thesis using step by simp
  next
    case (Suc k')
    with Cons.prems have "k' < length rest" "\<forall>inp\<in>set rest. out_of_range (testA0 inp)" by simp_all
    from Cons.IH [OF this(2,1), of "fst (loop inp st)"] step Suc show ?thesis by simp
  qed
qed

lemma run_loops_never_good_A1:
  assumes "\<forall>inp\<in>set inps. out_of_range (testA1 inp)" "k < length inps" "lastGoodReading (chA1 st) = - 1"
  shows "rawValue (chA1 (fst (run_loops inps st ! k))) = rawValue (chA1 st)
       \<and> lastGoodReading (chA1 (fst (run_loops inps st ! k))) = - 1"
  using assms
proof (induction inps arbitrary: k st)
  case Nil
  then show ?case by simp
next
  case (Cons inp rest)
  have step: "rawValue (chA1 (fst (loop inp st))) = rawValue (chA1 st)
       \<and> lastGoodReading (chA1 (fst (loop inp st))) = - 1"
    using Cons.prems(1,3) by (intro loop_never_good_A1) simp_all
  show ?case
  proof (cases k)
    case 0
    then show ?thesis using step by simp
  next
    case (Suc k')
    with Cons.prems have "k' < length rest" "\<forall>inp\<in>set rest. out_of_range (testA1 inp)" by simp_all
    from Cons.IH [OF this(2,1), of "fst (loop inp st)"] step Suc show ?thesis by simp
  qed
qed

lemma run_loops_data_line:
  assumes "k < length inps" "snd (run_loops inps st ! k) \<noteq> []"
  shows "filter (\<lambda>l. \<not> is_diagnostic l) (serial_lines (snd (run_loops inps st ! k)) []) =
     [data_line (t_stamp (inps ! k)) (rawValue (chA0 (fst (run_loops inps st ! k))))
        (rawValue (chA1 (fst (run_loops inps st ! k))))]"
proof -
  let ?before = "if k = 0 then st else fst (run_loops inps st ! (k - 1))"
  have eq: "run_loops inps st ! k = loop (inps ! k) ?before"
    using assms(1) by (rule run_loops_nth)
  then have "fires (inps ! k) ?before" using assms(2) loop_events_iff by simp
  from loop_data_line [OF this] show ?thesis by (simp only: eq)
qed

lemma startup_never_good:
  "rawValue (chA0 (fst (setup_sketch t0 t1 sketch_init))) = 0"
  "rawValue (chA1 (fst (setup_sketch t0 t1 sketch_init))) = 0"
  "lastGoodReading (chA0 (fst (setup_sketch t0 t1 sketch_init))) = - 1"
  "lastGoodReading (chA1 (fst (setup_sketch t0 t1 sketch_init))) = - 1"
  "lastSendTime (fst (setup_sketch t0 t1 sketch_init)) = 0"
  unfolding setup_sketch_state by (simp_all add: sketch_init_def channel_init_def)

lemma data_line_zero:
  "data_line ts 0 y = dec_nat (unat ts) @ '',0,'' @ dec_int y"
  "data_line ts x 0 = dec_nat (unat ts) @ '','' @ dec_int x @ '',0''"
proof -
  have "dec_int 0 = ''0''" by code_simp
  then show "data_line ts 0 y = dec_nat (unat ts) @ '',0,'' @ dec_int y"
    "data_line ts x 0 = dec_nat (unat ts) @ '','' @ dec_int x @ '',0''"
    by (simp_all add: data_line_def)
qed

text \<open>
  C10. Take any passes of \<open>loop\<close> after startup. If the validation reading of sensor A0 is
  out of range in every one of them, then after each pass \<open>rawValueA0\<close> still has its
  initial value 0 and \<open>lastGoodReadingA0\<close> is still -1, and every pass that runs a cycle
  prints exactly one data line, whose field for A0 is \<open>0\<close>: the channel is neither left
  out nor marked, and the line is not withheld. The same holds for sensor A1.
\<close>

theorem never_valid_channel_reports_zero:
  assumes "k < length inps"
  shows "((\<forall>inp\<in>set inps. out_of_range (testA0 inp)) \<longrightarrow>
            rawValue (chA0 (fst (run_loops inps (fst (setup_sketch t0 t1 sketch_init)) ! k))) = 0
          \<and> lastGoodReading (chA0 (fst (run_loops inps (fst (setup_sketch t0 t1 sketch_init)) ! k))) = - 1
          \<and> (if snd (run_loops inps (fst (setup_sketch t0 t1 sketch_init)) ! k) \<noteq> []
             then filter (\<lambda>l. \<not> is_diagnostic l)
                    (serial_lines (snd (run_loops inps (fst (setup_sketch t0 t1 sketch_init)) ! k)) []) =
                  [dec_nat (unat (t_stamp (inps ! k))) @ '',0,'' @
                   dec_int (rawValue (chA1 (fst (run_loops inps (fst (setup_sketch t0 t1 sketch_init)) ! k))))]
             else serial_lines (snd (run_loops inps (fst (setup_sketch t0 t1 sketch_init)) ! k)) [] = []))
       \<and> ((\<forall>inp\<in>set inps. out_of_range (testA1 inp)) \<longrightarrow>
            rawValue (chA1 (fst (run_loops inps (fst (setup_sketch t0 t1 sketch_init)) ! k))) = 0
          \<and> lastGoodReading (chA1 (fst (run_loops inps (fst (setup_sketch t0 t1 sketch_init)) ! k))) = - 1
          \<and> (if snd (run_loops inps (fst (setup_sketch t0 t1 sketch_init)) ! k) \<noteq> []
             then filter (\<lambda>l. \<not> is_diagnostic l)
                    (serial_lines (snd (run_loops inps (fst (setup_sketch t0 t1 sketch_init)) ! k)) []) =
                  [dec_nat (unat (t_stamp (inps ! k))) @ '','' @
                   dec_int (rawValue (chA0 (fst (run_loops inps (fst (setup_sketch t0 t1 sketch_init)) ! k)))) @ '',0'']
             else serial_lines (snd (run_loops inps (fst (setup_sketch t0 t1 sketch_init)) ! k)) [] = []))
       \<and> (snd (run_loops inps (fst (setup_sketch t0 t1 sketch_init)) ! k) \<noteq> []) =
           fires (inps ! k)
             (if k = 0 then fst (setup_sketch t0 t1 sketch_init)
              else fst (run_loops inps (fst (setup_sketch t0 t1 sketch_init)) ! (k - 1)))"
proof -
  let ?st = "fst (setup_sketch t0 t1 sketch_init)"
  let ?R = "run_loops inps ?st ! k"
  have line: "snd ?R \<noteq> [] \<Longrightarrow> filter (\<lambda>l. \<not> is_diagnostic l) (serial_lines (snd ?R) []) =
     [data_line (t_stamp (inps ! k)) (rawValue (chA0 (fst ?R))) (rawValue (chA1 (fst ?R)))]"
    using run_loops_data_line [OF assms] by simp
  have a0: "rawValue (chA0 (fst ?R)) = 0 \<and> lastGoodReading (chA0 (fst ?R)) = - 1"
    if "\<forall>inp\<in>set inps. out_of_range (testA0 inp)"
    using run_loops_never_good_A0 [OF that assms, of ?st] by (simp add: startup_never_good)
  have a1: "rawValue (chA1 (fst ?R)) = 0 \<and> lastGoodReading (chA1 (fst ?R)) = - 1"
    if "\<forall>inp\<in>set inps. out_of_range (testA1 inp)"
    using run_loops_never_good_A1 [OF that assms, of ?st] by (simp add: startup_never_good)
  have fired: "(snd ?R \<noteq> []) = fires (inps ! k) (if k = 0 then ?st else fst (run_loops inps ?st ! (k - 1)))"
    using run_loops_nth [OF assms, of ?st] loop_events_iff by simp
  show ?thesis
  proof (intro conjI impI)
    assume h: "\<forall>inp\<in>set inps. out_of_range (testA0 inp)"
    show "rawValue (chA0 (fst ?R)) = 0" "lastGoodReading (chA0 (fst ?R)) = - 1"
      using a0 [OF h] by simp_all
    show "if snd ?R \<noteq> []
       then filter (\<lambda>l. \<not> is_diagnostic l) (serial_lines (snd ?R) []) =
         [dec_nat (unat (t_stamp (inps ! k))) @ '',0,'' @ dec_int (rawValue (chA1 (fst ?R)))]
       else serial_lines (snd ?R) [] = []"
      using line a0 [OF h] by (simp add: data_line_zero)
  next
    assume h: "\<forall>inp\<in>set inps. out_of_range (testA1 inp)"
    show "rawValue (chA1 (fst ?R)) = 0" "lastGoodReading (chA1 (fst ?R)) = - 1"
      using a1 [OF h] by simp_all
    show "if snd ?R \<noteq> []
       then filter (\<lambda>l. \<not> is_diagnostic l) (serial_lines (snd ?R) []) =
         [dec_nat (unat (t_stamp (inps ! k))) @ '','' @ dec_int (rawValue (chA0 (fst ?R))) @ '',0'']
       else serial_lines (snd ?R) [] = []"
      using line a1 [OF h] by (simp add: data_line_zero)
  next
    show "(snd ?R \<noteq> []) = fires (inps ! k) (if k = 0 then ?st else fst (run_loops inps ?st ! (k - 1)))"
      by (rule fired)
  qed
qed

subsection \<open>Power during the sampling loop\<close>

lemma sample_events_eval:
  "sample_events pin smp =
     [AnalogRead pin (smp 0), Delay 10, AnalogRead pin (smp 1), Delay 10, AnalogRead pin (smp 2), Delay 10,
      AnalogRead pin (smp 3), Delay 10, AnalogRead pin (smp 4), Delay 10]"
  by (simp add: sample_events_def numReadings_def eval_nat_numeral)

lemma readSensor_events_valid:
  assumes "\<not> out_of_range tr" "pw \<noteq> - 1"
    and "pw = (if pin = moistureSensorA0 then sensorPowerPinA0 else sensorPowerPinA1)"
  shows "snd (readSensor pin pw idx tr smp a w ch) =
     [DigitalWrite pw True, Delay powerPrewarmTime,
      DigitalWrite pw True, Delay powerPrewarmTime, AnalogRead pin tr, DigitalWrite pw False,
      AnalogRead pin (smp 0), Delay 10, AnalogRead pin (smp 1), Delay 10, AnalogRead pin (smp 2), Delay 10,
      AnalogRead pin (smp 3), Delay 10, AnalogRead pin (smp 4), Delay 10,
      DigitalWrite pw False]"
  using assms
  by (auto simp: readSensor_def checkSensor_def Let_def out_of_range_def sample_events_eval)

lemma readSensor_power_valid:
  assumes "\<not> out_of_range tr" "pw \<noteq> - 1"
    and "pw = (if pin = moistureSensorA0 then sensorPowerPinA0 else sensorPowerPinA1)"
  shows "power_at_reads pw pin lvl (snd (readSensor pin pw idx tr smp a w ch)) =
     [True, False, False, False, False, False]"
  by (simp add: readSensor_events_valid [OF assms])

text \<open>
  C8, evaluated on the code. Sensor A0 has the power pin 7. In a call of \<open>readSensor\<close>
  with the valid reading 600: \<open>readSensor\<close> drives the pin high, \<open>checkSensor\<close> drives
  it high again, takes the validation reading and drives it low, and the five readings of
  the sampling loop follow with the pin low; the last write drives it low once more. The
  pin is high at the validation reading only.
\<close>

theorem power_low_during_sampling:
  "snd (readSensor moistureSensorA0 sensorPowerPinA0 0 600 (steady 600) airValueA0 waterValueA0 channel_init) =
     [DigitalWrite 7 True, Delay 100,
      DigitalWrite 7 True, Delay 100, AnalogRead 14 600, DigitalWrite 7 False,
      AnalogRead 14 600, Delay 10, AnalogRead 14 600, Delay 10, AnalogRead 14 600, Delay 10,
      AnalogRead 14 600, Delay 10, AnalogRead 14 600, Delay 10,
      DigitalWrite 7 False]
   \<and> power_at_reads sensorPowerPinA0 moistureSensorA0 False
       (snd (readSensor moistureSensorA0 sensorPowerPinA0 0 600 (steady 600) airValueA0 waterValueA0 channel_init)) =
     [True, False, False, False, False, False]"
proof -
  have h: "\<not> out_of_range 600" "sensorPowerPinA0 \<noteq> - 1"
    "sensorPowerPinA0 = (if moistureSensorA0 = moistureSensorA0 then sensorPowerPinA0 else sensorPowerPinA1)"
    by (simp_all add: out_of_range_def sensorPowerPinA0_def)
  show ?thesis
    using readSensor_events_valid [OF h] readSensor_power_valid [OF h]
    by (simp add: sensorPowerPinA0_def moistureSensorA0_def A0_def powerPrewarmTime_def steady_def)
qed

subsection \<open>The scheduler\<close>

lemma fires_elapsed: "fires (inp\<lparr> t_check := lastSendTime st + d \<rparr>) st \<longleftrightarrow> 5000 \<le> d"
  by (simp add: fires_def sendInterval_def)

text \<open>
  The single-sensor sketch reads the clock once in a pass and records that value; the
  two-sensor sketches read it again after the cycle (lemma \<open>loop_lastSendTime\<close>).
\<close>

lemma loop_single_previousMillis:
  "previousMillis (fst (loop_single currentMillis reading s)) =
     (if readInterval \<le> currentMillis - previousMillis s then currentMillis else previousMillis s)"
  by (simp add: loop_single_def readSoilMoisture_def Let_def)

text \<open>
  C6, as amended. A pass of \<open>loop\<close> runs a cycle if and only if the 32-bit unsigned
  difference between the clock read at the test and \<open>lastSendTime\<close> is at least the
  interval of 5000; otherwise it changes nothing. When it runs a cycle it sets
  \<open>lastSendTime\<close> to the clock read again after the reads and the report. Whether it runs
  depends only on the time elapsed since \<open>lastSendTime\<close> modulo \<open>2 ^ 32\<close>, so also when
  the clock has wrapped: with \<open>lastSendTime\<close> 1000 below the wrap, a pass at 4000 runs a
  cycle and a pass at 3999 does not. Of passes at 0, 4999, 5000, 9999 and 10000 after
  startup, in each of which the clock reads the same at the end as at the test, those at
  5000 and 10000 run a cycle and the others do not.
\<close>

theorem scheduler_unsigned_interval:
  "(snd (loop inp st) \<noteq> []) = (sendInterval \<le> t_check inp - lastSendTime st)
   \<and> (if sendInterval \<le> t_check inp - lastSendTime st
      then lastSendTime (fst (loop inp st)) = t_end inp
      else loop inp st = (st, []))
   \<and> (snd (loop (inp\<lparr> t_check := lastSendTime st + d \<rparr>) st) \<noteq> []) = (5000 \<le> d)
   \<and> snd (loop (steady_cycle 4000 e v0 v1) (st\<lparr> lastSendTime := 4294966296 \<rparr>)) \<noteq> []
   \<and> snd (loop (steady_cycle 3999 e v0 v1) (st\<lparr> lastSendTime := 4294966296 \<rparr>)) = []
   \<and> snd (run_loops [steady_cycle 0 0 v0 v1, steady_cycle 4999 4999 v0 v1, steady_cycle 5000 5000 v0 v1,
         steady_cycle 9999 9999 v0 v1, steady_cycle 10000 10000 v0 v1]
        (fst (setup_sketch t0 t1 sketch_init)) ! 0) = []
   \<and> snd (run_loops [steady_cycle 0 0 v0 v1, steady_cycle 4999 4999 v0 v1, steady_cycle 5000 5000 v0 v1,
         steady_cycle 9999 9999 v0 v1, steady_cycle 10000 10000 v0 v1]
        (fst (setup_sketch t0 t1 sketch_init)) ! 1) = []
   \<and> snd (run_loops [steady_cycle 0 0 v0 v1, steady_cycle 4999 4999 v0 v1, steady_cycle 5000 5000 v0 v1,
         steady_cycle 9999 9999 v0 v1, steady_cycle 10000 10000 v0 v1]
        (fst (setup_sketch t0 t1 sketch_init)) ! 2) \<noteq> []
   \<and> snd (run_loops [steady_cycle 0 0 v0 v1, steady_cycle 4999 4999 v0 v1, steady_cycle 5000 5000 v0 v1,
         steady_cycle 9999 9999 v0 v1, steady_cycle 10000 10000 v0 v1]
        (fst (setup_sketch t0 t1 sketch_init)) ! 3) = []
   \<and> snd (run_loops [steady_cycle 0 0 v0 v1, steady_cycle 4999 4999 v0 v1, steady_cycle 5000 5000 v0 v1,
         steady_cycle 9999 9999 v0 v1, steady_cycle 10000 10000 v0 v1]
        (fst (setup_sketch t0 t1 sketch_init)) ! 4) \<noteq> []"
proof -
  have a: "(snd (loop inp st) \<noteq> []) = (sendInterval \<le> t_check inp - lastSendTime st)"
    by (simp add: loop_events_iff fires_def)
  have b: "if sendInterval \<le> t_check inp - lastSendTime st
      then lastSendTime (fst (loop inp st)) = t_end inp
      else loop inp st = (st, [])"
    using loop_lastSendTime [of inp st] loop_idle [of inp st] by (simp add: fires_def)
  have c: "(snd (loop (inp\<lparr> t_check := lastSendTime st + d \<rparr>) st) \<noteq> []) = (5000 \<le> d)"
    by (simp only: loop_events_iff fires_elapsed)
  have d: "snd (loop (steady_cycle 4000 e v0 v1) (st\<lparr> lastSendTime := 4294966296 \<rparr>)) \<noteq> []"
    "snd (loop (steady_cycle 3999 e v0 v1) (st\<lparr> lastSendTime := 4294966296 \<rparr>)) = []"
    by (simp_all add: loop_events_iff loop_events_empty fires_def steady_cycle_def sendInterval_def)
  let ?st = "fst (setup_sketch t0 t1 sketch_init)"
  let ?p0 = "steady_cycle 0 0 v0 v1"
  let ?p1 = "steady_cycle 4999 4999 v0 v1"
  let ?p2 = "steady_cycle 5000 5000 v0 v1"
  let ?p3 = "steady_cycle 9999 9999 v0 v1"
  let ?p4 = "steady_cycle 10000 10000 v0 v1"
  have f0: "\<not> fires ?p0 ?st"
    by (simp add: fires_def steady_cycle_def sendInterval_def startup_never_good)
  then have s0: "fst (loop ?p0 ?st) = ?st" by (simp add: loop_idle)
  have f1: "\<not> fires ?p1 ?st"
    by (simp add: fires_def steady_cycle_def sendInterval_def startup_never_good)
  then have s1: "fst (loop ?p1 ?st) = ?st" by (simp add: loop_idle)
  have f2: "fires ?p2 ?st"
    by (simp add: fires_def steady_cycle_def sendInterval_def startup_never_good)
  have l2: "lastSendTime (fst (loop ?p2 ?st)) = 5000"
    using f2 by (simp add: loop_lastSendTime steady_cycle_def)
  have f3: "\<not> fires ?p3 (fst (loop ?p2 ?st))"
    by (simp add: fires_def l2) (simp add: steady_cycle_def sendInterval_def)
  then have s3: "fst (loop ?p3 (fst (loop ?p2 ?st))) = fst (loop ?p2 ?st)" by (simp add: loop_idle)
  have f4: "fires ?p4 (fst (loop ?p2 ?st))"
    by (simp add: fires_def l2) (simp add: steady_cycle_def sendInterval_def)
  have r: "snd (run_loops [?p0, ?p1, ?p2, ?p3, ?p4] ?st ! 0) = []"
    "snd (run_loops [?p0, ?p1, ?p2, ?p3, ?p4] ?st ! 1) = []"
    "snd (run_loops [?p0, ?p1, ?p2, ?p3, ?p4] ?st ! 2) \<noteq> []"
    "snd (run_loops [?p0, ?p1, ?p2, ?p3, ?p4] ?st ! 3) = []"
    "snd (run_loops [?p0, ?p1, ?p2, ?p3, ?p4] ?st ! 4) \<noteq> []"
    using f0 f1 f2 f3 f4
    by (simp_all add: s0 s1 s3 loop_events_iff loop_events_empty)
  show ?thesis
    using a b c d r by (simp only:) simp
qed

text \<open>
  C6 as stated fails where it says that a firing records \<open>lastFireTime = now\<close>. When the
  clock reads 5000 at the test and 5450 after the cycle, the pass runs a cycle and
  \<open>lastSendTime\<close> is 5450, not 5000; a following pass at 10000 then does not run a cycle.
\<close>

theorem scheduler_records_now_counterexample:
  "sendInterval \<le> t_check (steady_cycle 5000 5450 600 600) - lastSendTime sketch_init
   \<and> snd (loop (steady_cycle 5000 5450 600 600) sketch_init) \<noteq> []
   \<and> lastSendTime (fst (loop (steady_cycle 5000 5450 600 600) sketch_init)) = 5450
   \<and> lastSendTime (fst (loop (steady_cycle 5000 5450 600 600) sketch_init))
       \<noteq> t_check (steady_cycle 5000 5450 600 600)
   \<and> snd (run_loops [steady_cycle 5000 5450 600 600, steady_cycle 10000 10450 600 600] sketch_init ! 1) = []"
proof -
  have f: "fires (steady_cycle 5000 5450 600 600) sketch_init"
    by (simp add: fires_def steady_cycle_def sendInterval_def sketch_init_def)
  have l: "lastSendTime (fst (loop (steady_cycle 5000 5450 600 600) sketch_init)) = 5450"
    using f by (simp add: loop_lastSendTime steady_cycle_def)
  have n: "\<not> fires (steady_cycle 10000 10450 600 600) (fst (loop (steady_cycle 5000 5450 600 600) sketch_init))"
    by (simp add: fires_def l) (simp add: steady_cycle_def sendInterval_def)
  have t: "t_check (steady_cycle 5000 5450 600 600) = 5000" by (simp add: steady_cycle_def)
  show ?thesis
    using f n by (simp add: l t loop_events_iff loop_events_empty) (simp add: fires_def t)
qed

subsection \<open>The window of readings\<close>

text \<open>
  \<open>loop\<close> never assigns \<open>readIndex\<close>, so every cycle reads and writes the same slot of
  \<open>readings\<close>. Where \<open>totalReading\<close> equals that slot (as at startup, both being 0), a
  valid cycle leaves \<open>totalReading\<close> equal to the median of this cycle alone.
\<close>

lemma readSensor_total_is_raw:
  assumes "totalReading ch = readings ch ! idx" "idx < length (readings ch)" "\<not> out_of_range tr"
  shows "totalReading (fst (readSensor pin pw idx tr smp a w ch)) = rawValue (fst (readSensor pin pw idx tr smp a w ch))
       \<and> totalReading (fst (readSensor pin pw idx tr smp a w ch)) = readings (fst (readSensor pin pw idx tr smp a w ch)) ! idx
       \<and> rawValue (fst (readSensor pin pw idx tr smp a w ch)) = median_filter numReadings (map smp [0..<numReadings])"
  using assms by (simp add: readSensor_valid)

lemma map_arduino_fits:
  assumes "- 32768 \<le> x" "x \<le> 32767"
  shows "\<bar>(x - 1023) * 100\<bar> < 2 ^ 31 \<and> - 32768 \<le> map_arduino x 1023 300 0 100 \<and> map_arduino x 1023 300 0 100 \<le> 32767"
proof -
  have b: "\<bar>x - 1023\<bar> \<le> 33791" using assms by simp
  then have m: "\<bar>(x - 1023) * 100\<bar> \<le> 3379100" by (simp add: abs_mult)
  have "\<bar>(x - 1023) * 100\<bar> div 723 \<le> 3379100 div 723"
    using m by (intro zdiv_mono1) simp_all
  then have "\<bar>(x - 1023) * 100\<bar> div 723 \<le> 4673" by simp
  moreover have "0 \<le> \<bar>(x - 1023) * 100\<bar> div 723" by (intro pos_imp_zdiv_nonneg_iff [THEN iffD2]) simp_all
  ultimately show ?thesis using m
    by (auto simp: map_arduino_def c_div_def)
qed

lemma to_percentage_fifth:
  assumes "0 < v" "v < 1023"
  shows "to_percentage (c_div v (int numReadings)) 1023 300 = 100"
proof -
  have "c_div v (int numReadings) = v div 5" using assms by (simp add: c_div_def numReadings_def)
  moreover have "v div 5 \<le> 300" using assms by simp
  ultimately show ?thesis using to_percentage_beyond_wet [of 300 1023 "v div 5"] by simp
qed

lemma steady_pass:
  assumes "sendInterval \<le> t - lastSendTime st" "0 < v0" "v0 < 1023" "0 < v1" "v1 < 1023"
    and "readIndex st = 0"
    and "readings (chA0 st) = [totalReading (chA0 st), 0, 0, 0, 0]"
    and "readings (chA1 st) = [totalReading (chA1 st), 0, 0, 0, 0]"
  shows "fst (loop (steady_cycle t t' v0 v1) st) =
    \<lparr> chA0 = \<lparr> readings = [v0, 0, 0, 0, 0], totalReading = v0, rawValue = v0,
               percentage = 100, lastGoodReading = v0, sensorError = False \<rparr>,
      chA1 = \<lparr> readings = [v1, 0, 0, 0, 0], totalReading = v1, rawValue = v1,
               percentage = 100, lastGoodReading = v1, sensorError = False \<rparr>,
      readIndex = 0, lastSendTime = t' \<rparr>"
proof -
  have f: "fires (steady_cycle t t' v0 v1) st"
    using assms(1) by (simp add: fires_def steady_cycle_def)
  have v: "\<not> out_of_range v0" "\<not> out_of_range v1"
    using assms(2-5) by (simp_all add: out_of_range_def)
  have p: "to_percentage (c_div v0 (int numReadings)) 1023 300 = 100"
    "to_percentage (c_div v1 (int numReadings)) 1023 300 = 100"
    using assms(2-5) by (simp_all add: to_percentage_fifth)
  show ?thesis
    by (subst loop_steady_valid [OF f v])
       (simp add: assms(6-8) p airValueA0_def waterValueA0_def airValueA1_def waterValueA1_def)
qed

lemma startup_window:
  "readIndex (fst (setup_sketch t0 t1 sketch_init)) = 0"
  "readings (chA0 (fst (setup_sketch t0 t1 sketch_init))) =
     [totalReading (chA0 (fst (setup_sketch t0 t1 sketch_init))), 0, 0, 0, 0]"
  "readings (chA1 (fst (setup_sketch t0 t1 sketch_init))) =
     [totalReading (chA1 (fst (setup_sketch t0 t1 sketch_init))), 0, 0, 0, 0]"
  unfolding setup_sketch_state by (simp_all add: sketch_init_def channel_init_eval)

text \<open>
  C1, evaluated on the code. Five cycles after startup, whose medians for sensor A0 are 100,
  200, 300, 400 and 500: afterwards \<open>readIndex\<close> is still 0, the window is
  \<open>[500, 0, 0, 0, 0]\<close> and \<open>totalReading\<close> is 500, the last sample alone, where the sum of
  the last five samples is 1500; the average \<open>totalReading / numReadings\<close> is 100, not 300.
\<close>

theorem rolling_sum_keeps_one_sample:
  "readIndex (fst (run_loops
      [steady_cycle 5000 5000 100 600, steady_cycle 10000 10000 200 600,
       steady_cycle 15000 15000 300 600, steady_cycle 20000 20000 400 600,
       steady_cycle 25000 25000 500 600]
      (fst (setup_sketch 600 600 sketch_init)) ! 4)) = 0
   \<and> readings (chA0 (fst (run_loops
      [steady_cycle 5000 5000 100 600, steady_cycle 10000 10000 200 600,
       steady_cycle 15000 15000 300 600, steady_cycle 20000 20000 400 600,
       steady_cycle 25000 25000 500 600]
      (fst (setup_sketch 600 600 sketch_init)) ! 4))) = [500, 0, 0, 0, 0]
   \<and> totalReading (chA0 (fst (run_loops
      [steady_cycle 5000 5000 100 600, steady_cycle 10000 10000 200 600,
       steady_cycle 15000 15000 300 600, steady_cycle 20000 20000 400 600,
       steady_cycle 25000 25000 500 600]
      (fst (setup_sketch 600 600 sketch_init)) ! 4))) = 500
   \<and> c_div (totalReading (chA0 (fst (run_loops
      [steady_cycle 5000 5000 100 600, steady_cycle 10000 10000 200 600,
       steady_cycle 15000 15000 300 600, steady_cycle 20000 20000 400 600,
       steady_cycle 25000 25000 500 600]
      (fst (setup_sketch 600 600 sketch_init)) ! 4)))) (int numReadings) = 100
   \<and> c_div (100 + 200 + 300 + 400 + 500) (int numReadings) = 300"
proof -
  let ?init = "fst (setup_sketch 600 600 sketch_init)"
  have s1: "fst (loop (steady_cycle 5000 5000 100 600) ?init) =
    \<lparr> chA0 = \<lparr> readings = [100, 0, 0, 0, 0], totalReading = 100, rawValue = 100,
               percentage = 100, lastGoodReading = 100, sensorError = False \<rparr>,
      chA1 = \<lparr> readings = [600, 0, 0, 0, 0], totalReading = 600, rawValue = 600,
               percentage = 100, lastGoodReading = 600, sensorError = False \<rparr>,
      readIndex = 0, lastSendTime = 5000 \<rparr>"
    by (rule steady_pass) (simp_all add: startup_window startup_never_good sendInterval_def)
  have s2: "fst (loop (steady_cycle 10000 10000 200 600) (fst (loop (steady_cycle 5000 5000 100 600) ?init))) =
    \<lparr> chA0 = \<lparr> readings = [200, 0, 0, 0, 0], totalReading = 200, rawValue = 200,
               percentage = 100, lastGoodReading = 200, sensorError = False \<rparr>,
      chA1 = \<lparr> readings = [600, 0, 0, 0, 0], totalReading = 600, rawValue = 600,
               percentage = 100, lastGoodReading = 600, sensorError = False \<rparr>,
      readIndex = 0, lastSendTime = 10000 \<rparr>"
    unfolding s1 by (rule steady_pass) (simp_all add: sendInterval_def)
  have s3: "fst (loop (steady_cycle 15000 15000 300 600)
      (fst (loop (steady_cycle 10000 10000 200 600) (fst (loop (steady_cycle 5000 5000 100 600) ?init))))) =
    \<lparr> chA0 = \<lparr> readings = [300, 0, 0, 0, 0], totalReading = 300, rawValue = 300,
               percentage = 100, lastGoodReading = 300, sensorError = False \<rparr>,
      chA1 = \<lparr> readings = [600, 0, 0, 0, 0], totalReading = 600, rawValue = 600,
               percentage = 100, lastGoodReading = 600, sensorError = False \<rparr>,
      readIndex = 0, lastSendTime = 15000 \<rparr>"
    unfolding s2 by (rule steady_pass) (simp_all add: sendInterval_def)
  have s4: "fst (loop (steady_cycle 20000 20000 400 600) (fst (loop (steady_cycle 15000 15000 300 600)
      (fst (loop (steady_cycle 10000 10000 200 600) (fst (loop (steady_cycle 5000 5000 100 600) ?init))))))) =
    \<lparr> chA0 = \<lparr> readings = [400, 0, 0, 0, 0], totalReading = 400, rawValue = 400,
               percentage = 100, lastGoodReading = 400, sensorError = False \<rparr>,
      chA1 = \<lparr> readings = [600, 0, 0, 0, 0], totalReading = 600, rawValue = 600,
               percentage = 100, lastGoodReading = 600, sensorError = False \<rparr>,
      readIndex = 0, lastSendTime = 20000 \<rparr>"
    unfolding s3 by (rule steady_pass) (simp_all add: sendInterval_def)
  have s5: "fst (loop (steady_cycle 25000 25000 500 600) (fst (loop (steady_cycle 20000 20000 400 600)
      (fst (loop (steady_cycle 15000 15000 300 600)
      (fst (loop (steady_cycle 10000 10000 200 600) (fst (loop (steady_cycle 5000 5000 100 600) ?init))))))))) =
    \<lparr> chA0 = \<lparr> readings = [500, 0, 0, 0, 0], totalReading = 500, rawValue = 500,
               percentage = 100, lastGoodReading = 500, sensorError = False \<rparr>,
      chA1 = \<lparr> readings = [600, 0, 0, 0, 0], totalReading = 600, rawValue = 600,
               percentage = 100, lastGoodReading = 600, sensorError = False \<rparr>,
      readIndex = 0, lastSendTime = 25000 \<rparr>"
    unfolding s4 by (rule steady_pass) (simp_all add: sendInterval_def)
  show ?thesis
    by (simp add: s5 c_div_def numReadings_def)
qed

subsection \<open>Worked passes\<close>

lemma dec_nat_small: "n < 10 \<Longrightarrow> dec_nat n = [digit_char n]"
  by (subst dec_nat.simps) simp

lemma dec_nat_big: "10 \<le> n \<Longrightarrow> dec_nat n = dec_nat (n div 10) @ [digit_char (n mod 10)]"
  by (subst dec_nat.simps) simp

lemma dec_nat_examples: "dec_nat 0 = ''0''" "dec_nat 600 = ''600''" "dec_nat 5000 = ''5000''" "dec_nat 10000 = ''10000''"
  by (simp_all add: dec_nat_small dec_nat_big digit_char_def)

lemma dec_int_examples: "dec_int 0 = ''0''" "dec_int 600 = ''600''"
  by (simp_all add: dec_int_def dec_nat_examples)

lemma data_line_examples: "data_line 5000 600 600 = ''5000,600,600''" "data_line 10000 0 0 = ''10000,0,0''"
  by (simp_all add: data_line_def dec_nat_examples dec_int_examples)

lemma readSensors_lines_valid:
  assumes "\<not> out_of_range (testA0 inp)" "\<not> out_of_range (testA1 inp)"
  shows "serial_lines (snd (readSensors inp st)) [] = []"
  using assms
  by (simp add: readSensors_events serial_lines_append pending_append readSensor_lines)

theorem one_data_line_per_cycle_witness:
  "fires (steady_cycle 5000 5450 600 600) (fst (setup_sketch 600 600 sketch_init))
   \<and> serial_lines (snd (loop (steady_cycle 5000 5450 600 600) (fst (setup_sketch 600 600 sketch_init)))) [] =
       [''5000,600,600'']
   \<and> percentage (chA0 (fst (loop (steady_cycle 5000 5450 600 600) (fst (setup_sketch 600 600 sketch_init))))) = 100
   \<and> snd (loop (steady_cycle 4999 5450 600 600) (fst (setup_sketch 600 600 sketch_init))) = []"
proof -
  let ?init = "fst (setup_sketch 600 600 sketch_init)"
  let ?c = "steady_cycle 5000 5450 600 600"
  have f: "fires ?c ?init"
    by (simp add: fires_def steady_cycle_def sendInterval_def startup_never_good)
  have n: "\<not> fires (steady_cycle 4999 5450 600 600) ?init"
    by (simp add: fires_def steady_cycle_def sendInterval_def startup_never_good)
  have s: "fst (loop ?c ?init) =
    \<lparr> chA0 = \<lparr> readings = [600, 0, 0, 0, 0], totalReading = 600, rawValue = 600,
               percentage = 100, lastGoodReading = 600, sensorError = False \<rparr>,
      chA1 = \<lparr> readings = [600, 0, 0, 0, 0], totalReading = 600, rawValue = 600,
               percentage = 100, lastGoodReading = 600, sensorError = False \<rparr>,
      readIndex = 0, lastSendTime = 5450 \<rparr>"
    by (rule steady_pass) (simp_all add: startup_window startup_never_good sendInterval_def)
  have d: "serial_lines (snd (readSensors ?c ?init)) [] = []"
    by (rule readSensors_lines_valid) (simp_all add: steady_cycle_def out_of_range_def)
  have t: "t_stamp ?c = 5000" by (simp add: steady_cycle_def)
  from one_data_line_per_cycle [of ?c ?init] f
  have "serial_lines (snd (loop ?c ?init)) [] =
      serial_lines (snd (readSensors ?c ?init)) [] @
        [data_line (t_stamp ?c) (rawValue (chA0 (fst (loop ?c ?init)))) (rawValue (chA1 (fst (loop ?c ?init))))]"
    by (simp only: if_True)
  then have l: "serial_lines (snd (loop ?c ?init)) [] = [''5000,600,600'']"
    unfolding d t s by (simp add: data_line_examples)
  from one_data_line_per_cycle [of "steady_cycle 4999 5450 600 600" ?init] n
  have e: "snd (loop (steady_cycle 4999 5450 600 600) ?init) = []" by (simp only: if_False)
  show ?thesis using f l e by (simp add: s)
qed

theorem never_valid_channel_reports_zero_witness:
  "(1 :: nat) < length [steady_cycle 5000 5000 1023 0, steady_cycle 10000 10000 0 1023]
   \<and> rawValue (chA0 (fst (run_loops [steady_cycle 5000 5000 1023 0, steady_cycle 10000 10000 0 1023]
        (fst (setup_sketch 1023 0 sketch_init)) ! 1))) = 0
   \<and> lastGoodReading (chA0 (fst (run_loops [steady_cycle 5000 5000 1023 0, steady_cycle 10000 10000 0 1023]
        (fst (setup_sketch 1023 0 sketch_init)) ! 1))) = - 1
   \<and> snd (run_loops [steady_cycle 5000 5000 1023 0, steady_cycle 10000 10000 0 1023]
        (fst (setup_sketch 1023 0 sketch_init)) ! 1) \<noteq> []
   \<and> filter (\<lambda>l. \<not> is_diagnostic l)
        (serial_lines (snd (run_loops [steady_cycle 5000 5000 1023 0, steady_cycle 10000 10000 0 1023]
           (fst (setup_sketch 1023 0 sketch_init)) ! 1)) []) = [''10000,0,0'']"
proof -
  let ?init = "fst (setup_sketch 1023 0 sketch_init)"
  let ?inps = "[steady_cycle 5000 5000 1023 0, steady_cycle 10000 10000 0 1023]"
  define R where "R = run_loops ?inps ?init ! 1"
  have k: "(1 :: nat) < length ?inps" by simp
  have h0: "\<forall>inp\<in>set ?inps. out_of_range (testA0 inp)"
    and h1: "\<forall>inp\<in>set ?inps. out_of_range (testA1 inp)"
    by (simp_all add: steady_cycle_def out_of_range_def)
  have f1: "fires (steady_cycle 5000 5000 1023 0) ?init"
    by (simp add: fires_def steady_cycle_def sendInterval_def startup_never_good)
  have l1: "lastSendTime (fst (loop (steady_cycle 5000 5000 1023 0) ?init)) = 5000"
    using f1 by (simp add: loop_lastSendTime steady_cycle_def)
  have f2: "fires (steady_cycle 10000 10000 0 1023) (fst (loop (steady_cycle 5000 5000 1023 0) ?init))"
    by (simp add: fires_def l1) (simp add: steady_cycle_def sendInterval_def)
  have t: "t_stamp (?inps ! 1) = 10000" by (simp add: steady_cycle_def)
  note T = never_valid_channel_reports_zero [OF k, of 1023 0, folded R_def]
  from T h0 have a: "rawValue (chA0 (fst R)) = 0" "lastGoodReading (chA0 (fst R)) = - 1"
    "if snd R \<noteq> []
     then filter (\<lambda>l. \<not> is_diagnostic l) (serial_lines (snd R) []) =
            [dec_nat (unat (t_stamp (?inps ! 1))) @ '',0,'' @ dec_int (rawValue (chA1 (fst R)))]
     else serial_lines (snd R) [] = []"
    by blast+
  from T h1 have b: "rawValue (chA1 (fst R)) = 0" by blast
  from T have "(snd R \<noteq> []) =
     fires (?inps ! 1) (if (1 :: nat) = 0 then ?init else fst (run_loops ?inps ?init ! (1 - 1)))"
    by blast
  then have fired: "snd R \<noteq> []" using f2 by simp
  have "filter (\<lambda>l. \<not> is_diagnostic l) (serial_lines (snd R) []) =
      [dec_nat (unat (10000 :: 32 word)) @ '',0,'' @ dec_int 0]"
    using a(3) fired unfolding t b by (simp only: if_True not_False_eq_True simp_thms)
  then have line: "filter (\<lambda>l. \<not> is_diagnostic l) (serial_lines (snd R) []) = [''10000,0,0'']"
    by (simp add: dec_nat_examples dec_int_examples)
  show ?thesis using k a(1,2) fired line unfolding R_def by (simp only:) simp
qed

subsection \<open>What a valid cycle gives to the mapping\<close>

text \<open>
  \<open>readIndex\<close> stays where it is and \<open>totalReading\<close> stays equal to the slot of
  \<open>readings\<close> at \<open>readIndex\<close>, over every pass of \<open>loop\<close>: a valid cycle takes the
  old slot out of the sum and puts the new median into both.
\<close>

lemma readSensor_window:
  assumes "idx < length (readings ch)" "totalReading ch = readings ch ! idx"
  shows "idx < length (readings (fst (readSensor pin pw idx tr smp a w ch)))
       \<and> totalReading (fst (readSensor pin pw idx tr smp a w ch)) =
           readings (fst (readSensor pin pw idx tr smp a w ch)) ! idx"
proof (cases "out_of_range tr")
  case True
  then show ?thesis using assms by (simp add: readSensor_invalid)
next
  case False
  then show ?thesis using assms by (simp add: readSensor_valid)
qed

lemma loop_window:
  assumes "readIndex st < length (readings (chA0 st))"
    "totalReading (chA0 st) = readings (chA0 st) ! readIndex st"
  shows "readIndex (fst (loop inp st)) < length (readings (chA0 (fst (loop inp st))))
       \<and> totalReading (chA0 (fst (loop inp st))) =
           readings (chA0 (fst (loop inp st))) ! readIndex (fst (loop inp st))"
proof (cases "fires inp st")
  case True
  then show ?thesis
    using readSensor_window [OF assms, of moistureSensorA0 sensorPowerPinA0 "testA0 inp" "samplesA0 inp"
        airValueA0 waterValueA0]
    by (simp add: loop_fired readSensors_state)
next
  case False
  then show ?thesis using assms by (simp add: loop_idle)
qed

lemma run_loops_window:
  assumes "k < length inps" "readIndex st < length (readings (chA0 st))"
    "totalReading (chA0 st) = readings (chA0 st) ! readIndex st"
  shows "readIndex (fst (run_loops inps st ! k)) < length (readings (chA0 (fst (run_loops inps st ! k))))
       \<and> totalReading (chA0 (fst (run_loops inps st ! k))) =
           readings (chA0 (fst (run_loops inps st ! k))) ! readIndex (fst (run_loops inps st ! k))"
  using assms
proof (induction inps arbitrary: k st)
  case Nil
  then show ?case by simp
next
  case (Cons inp rest)
  note step = loop_window [OF Cons.prems(2,3), of inp]
  show ?case
  proof (cases k)
    case 0
    then show ?thesis using step by simp
  next
    case (Suc k')
    with Cons.prems have "k' < length rest" by simp
    from Cons.IH [OF this, of "fst (loop inp st)"] step Suc show ?thesis by simp
  qed
qed

lemma startup_window_inv:
  "readIndex (fst (setup_sketch t0 t1 sketch_init)) < length (readings (chA0 (fst (setup_sketch t0 t1 sketch_init))))"
  "totalReading (chA0 (fst (setup_sketch t0 t1 sketch_init))) =
     readings (chA0 (fst (setup_sketch t0 t1 sketch_init))) ! readIndex (fst (setup_sketch t0 t1 sketch_init))"
  unfolding setup_sketch_state by (simp_all add: sketch_init_def channel_init_eval)

lemma to_percentage_fifth_adc:
  assumes "0 \<le> v" "v \<le> 1023"
  shows "to_percentage (c_div v (int numReadings)) 1023 300 = 100"
proof -
  have "c_div v (int numReadings) = v div 5" using assms by (simp add: c_div_def numReadings_def)
  moreover have "v div 5 \<le> 300" using assms by simp
  ultimately show ?thesis using to_percentage_beyond_wet [of 300 1023 "v div 5"] by simp
qed

lemma median_filter_adc:
  assumes "\<forall>i<numReadings. 0 \<le> smp i \<and> smp i \<le> 1023"
  shows "0 \<le> median_filter numReadings (map smp [0..<numReadings])
       \<and> median_filter numReadings (map smp [0..<numReadings]) \<le> 1023"
proof -
  have "median_filter numReadings (map smp [0..<numReadings]) \<in> set (map smp [0..<numReadings])"
    by (rule median_filter_member) (simp_all add: numReadings_def)
  then show ?thesis using assms by auto
qed

lemma median_filter_const:
  assumes "\<forall>i<numReadings. smp i = v"
  shows "median_filter numReadings (map smp [0..<numReadings]) = v"
proof -
  have "median_filter numReadings (map smp [0..<numReadings]) \<in> set (map smp [0..<numReadings])"
    by (rule median_filter_member) (simp_all add: numReadings_def)
  then show ?thesis using assms by auto
qed

text \<open>
  So a cycle that passes the validation maps one fifth of its own median: with readings of
  the converter (0 to 1023) that is at most 204, below the wet calibration value 300, and
  the percentage is 100 whatever the median.
\<close>

lemma loop_fired_valid_A0:
  assumes "readIndex st < length (readings (chA0 st))"
    "totalReading (chA0 st) = readings (chA0 st) ! readIndex st"
    and "fires inp st" "\<not> out_of_range (testA0 inp)"
    and "\<forall>i<numReadings. 0 \<le> samplesA0 inp i \<and> samplesA0 inp i \<le> 1023"
  shows "rawValue (chA0 (fst (loop inp st))) = median_filter numReadings (map (samplesA0 inp) [0..<numReadings])
       \<and> totalReading (chA0 (fst (loop inp st))) = rawValue (chA0 (fst (loop inp st)))
       \<and> percentage (chA0 (fst (loop inp st))) = 100"
proof -
  let ?m = "median_filter numReadings (map (samplesA0 inp) [0..<numReadings])"
  have "to_percentage (c_div ?m (int numReadings)) 1023 300 = 100"
    using median_filter_adc [OF assms(5)] by (intro to_percentage_fifth_adc) simp_all
  then show ?thesis
    using assms(1-4)
    by (simp add: loop_fired readSensors_state readSensor_valid airValueA0_def waterValueA0_def)
qed

lemma run_loops_fired_valid_A0:
  assumes "k < length inps" "snd (run_loops inps (fst (setup_sketch t0 t1 sketch_init)) ! k) \<noteq> []"
    and "\<not> out_of_range (testA0 (inps ! k))"
    and "\<forall>i<numReadings. 0 \<le> samplesA0 (inps ! k) i \<and> samplesA0 (inps ! k) i \<le> 1023"
  shows "rawValue (chA0 (fst (run_loops inps (fst (setup_sketch t0 t1 sketch_init)) ! k))) =
           median_filter numReadings (map (samplesA0 (inps ! k)) [0..<numReadings])
       \<and> totalReading (chA0 (fst (run_loops inps (fst (setup_sketch t0 t1 sketch_init)) ! k))) =
           rawValue (chA0 (fst (run_loops inps (fst (setup_sketch t0 t1 sketch_init)) ! k)))
       \<and> percentage (chA0 (fst (run_loops inps (fst (setup_sketch t0 t1 sketch_init)) ! k))) = 100"
proof -
  let ?st = "fst (setup_sketch t0 t1 sketch_init)"
  let ?before = "if k = 0 then ?st else fst (run_loops inps ?st ! (k - 1))"
  have eq: "run_loops inps ?st ! k = loop (inps ! k) ?before"
    using assms(1) by (rule run_loops_nth)
  have f: "fires (inps ! k) ?before" using assms(2) loop_events_iff by (simp add: eq)
  have inv: "readIndex ?before < length (readings (chA0 ?before))
       \<and> totalReading (chA0 ?before) = readings (chA0 ?before) ! readIndex ?before"
  proof (cases "k = 0")
    case True
    then show ?thesis using startup_window_inv [of t0 t1] by simp
  next
    case False
    then have "k - 1 < length inps" using assms(1) by simp
    from run_loops_window [OF this startup_window_inv, of t0 t1] False show ?thesis by simp
  qed
  from loop_fired_valid_A0 [OF inv [THEN conjunct1] inv [THEN conjunct2] f assms(3,4)]
  show ?thesis by (simp only: eq)
qed

text \<open>
  C2, on the code. Take any passes of \<open>loop\<close> after startup in which sensor A0 reads a
  steady 600 at every sample, with the calibration 1023 and 300 of the sketch. After every
  pass that runs a cycle, the first, the fifth or any later one, \<open>rawValueA0\<close> is 600,
  \<open>totalReadingA0\<close> is 600 (one sample, not the sum of the window), the average that is
  mapped is \<open>600 / 5 = 120\<close> and \<open>percentageA0\<close> is 100. The value 58 is what the
  mapping gives for the average of a window that holds five samples of 600.
\<close>

theorem steady_600_percentage:
  assumes "k < length inps"
    and "\<forall>inp\<in>set inps. testA0 inp = 600 \<and> (\<forall>i<numReadings. samplesA0 inp i = 600)"
    and "snd (run_loops inps (fst (setup_sketch t0 t1 sketch_init)) ! k) \<noteq> []"
  shows "rawValue (chA0 (fst (run_loops inps (fst (setup_sketch t0 t1 sketch_init)) ! k))) = 600
       \<and> totalReading (chA0 (fst (run_loops inps (fst (setup_sketch t0 t1 sketch_init)) ! k))) = 600
       \<and> c_div (totalReading (chA0 (fst (run_loops inps (fst (setup_sketch t0 t1 sketch_init)) ! k))))
            (int numReadings) = 120
       \<and> percentage (chA0 (fst (run_loops inps (fst (setup_sketch t0 t1 sketch_init)) ! k))) = 100
       \<and> to_percentage (c_div (600 + 600 + 600 + 600 + 600) (int numReadings)) airValueA0 waterValueA0 = 58"
proof -
  let ?R = "run_loops inps (fst (setup_sketch t0 t1 sketch_init)) ! k"
  have mem: "inps ! k \<in> set inps" using assms(1) by simp
  then have tr: "testA0 (inps ! k) = 600" and smp: "\<forall>i<numReadings. samplesA0 (inps ! k) i = 600"
    using assms(2) by blast+
  have valid: "\<not> out_of_range (testA0 (inps ! k))" by (simp add: tr out_of_range_def)
  have adc: "\<forall>i<numReadings. 0 \<le> samplesA0 (inps ! k) i \<and> samplesA0 (inps ! k) i \<le> 1023"
    using smp by simp
  have med: "median_filter numReadings (map (samplesA0 (inps ! k)) [0..<numReadings]) = 600"
    using smp by (rule median_filter_const)
  from run_loops_fired_valid_A0 [OF assms(1,3) valid adc]
  have r: "rawValue (chA0 (fst ?R)) = 600" "totalReading (chA0 (fst ?R)) = 600"
    "percentage (chA0 (fst ?R)) = 100"
    by (simp_all add: med)
  have d: "c_div 600 (int numReadings) = 120"
    "to_percentage (c_div (600 + 600 + 600 + 600 + 600) (int numReadings)) airValueA0 waterValueA0 = 58"
    using to_percentage_600
    by (simp_all add: c_div_def numReadings_def airValueA0_def waterValueA0_def)
  show ?thesis using r d by simp
qed

theorem steady_600_percentage_witness:
  "(4 :: nat) < length [steady_cycle 5000 5000 600 600, steady_cycle 10000 10000 600 600,
       steady_cycle 15000 15000 600 600, steady_cycle 20000 20000 600 600,
       steady_cycle 25000 25000 600 600, steady_cycle 30000 30000 600 600]
   \<and> snd (run_loops [steady_cycle 5000 5000 600 600, steady_cycle 10000 10000 600 600,
       steady_cycle 15000 15000 600 600, steady_cycle 20000 20000 600 600,
       steady_cycle 25000 25000 600 600, steady_cycle 30000 30000 600 600]
      (fst (setup_sketch 600 600 sketch_init)) ! 4) \<noteq> []
   \<and> percentage (chA0 (fst (run_loops [steady_cycle 5000 5000 600 600, steady_cycle 10000 10000 600 600,
       steady_cycle 15000 15000 600 600, steady_cycle 20000 20000 600 600,
       steady_cycle 25000 25000 600 600, steady_cycle 30000 30000 600 600]
      (fst (setup_sketch 600 600 sketch_init)) ! 4))) = 100
   \<and> totalReading (chA0 (fst (run_loops [steady_cycle 5000 5000 600 600, steady_cycle 10000 10000 600 600,
       steady_cycle 15000 15000 600 600, steady_cycle 20000 20000 600 600,
       steady_cycle 25000 25000 600 600, steady_cycle 30000 30000 600 600]
      (fst (setup_sketch 600 600 sketch_init)) ! 4))) = 600
   \<and> (5 :: nat) < length [steady_cycle 5000 5000 600 600, steady_cycle 10000 10000 600 600,
       steady_cycle 15000 15000 600 600, steady_cycle 20000 20000 600 600,
       steady_cycle 25000 25000 600 600, steady_cycle 30000 30000 600 600]
   \<and> snd (run_loops [steady_cycle 5000 5000 600 600, steady_cycle 10000 10000 600 600,
       steady_cycle 15000 15000 600 600, steady_cycle 20000 20000 600 600,
       steady_cycle 25000 25000 600 600, steady_cycle 30000 30000 600 600]
      (fst (setup_sketch 600 600 sketch_init)) ! 5) \<noteq> []
   \<and> percentage (chA0 (fst (run_loops [steady_cycle 5000 5000 600 600, steady_cycle 10000 10000 600 600,
       steady_cycle 15000 15000 600 600, steady_cycle 20000 20000 600 600,
       steady_cycle 25000 25000 600 600, steady_cycle 30000 30000 600 600]
      (fst (setup_sketch 600 600 sketch_init)) ! 5))) = 100"
proof -
  let ?st = "fst (setup_sketch 600 600 sketch_init)"
  let ?p1 = "steady_cycle 5000 5000 600 600"
  let ?p2 = "steady_cycle 10000 10000 600 600"
  let ?p3 = "steady_cycle 15000 15000 600 600"
  let ?p4 = "steady_cycle 20000 20000 600 600"
  let ?p5 = "steady_cycle 25000 25000 600 600"
  let ?p6 = "steady_cycle 30000 30000 600 600"
  let ?P = "[?p1, ?p2, ?p3, ?p4, ?p5, ?p6]"
  define s1 where "s1 = fst (loop ?p1 ?st)"
  define s2 where "s2 = fst (loop ?p2 s1)"
  define s3 where "s3 = fst (loop ?p3 s2)"
  define s4 where "s4 = fst (loop ?p4 s3)"
  define s5 where "s5 = fst (loop ?p5 s4)"
  have f1: "fires ?p1 ?st"
    by (simp add: fires_def steady_cycle_def sendInterval_def startup_never_good)
  have l1: "lastSendTime s1 = 5000"
    unfolding s1_def using f1 by (simp add: loop_lastSendTime steady_cycle_def)
  have f2: "fires ?p2 s1"
    by (simp add: fires_def l1) (simp add: steady_cycle_def sendInterval_def)
  have l2: "lastSendTime s2 = 10000"
    unfolding s2_def using f2 by (simp add: loop_lastSendTime steady_cycle_def)
  have f3: "fires ?p3 s2"
    by (simp add: fires_def l2) (simp add: steady_cycle_def sendInterval_def)
  have l3: "lastSendTime s3 = 15000"
    unfolding s3_def using f3 by (simp add: loop_lastSendTime steady_cycle_def)
  have f4: "fires ?p4 s3"
    by (simp add: fires_def l3) (simp add: steady_cycle_def sendInterval_def)
  have l4: "lastSendTime s4 = 20000"
    unfolding s4_def using f4 by (simp add: loop_lastSendTime steady_cycle_def)
  have f5: "fires ?p5 s4"
    by (simp add: fires_def l4) (simp add: steady_cycle_def sendInterval_def)
  have l5: "lastSendTime s5 = 25000"
    unfolding s5_def using f5 by (simp add: loop_lastSendTime steady_cycle_def)
  have f6: "fires ?p6 s5"
    by (simp add: fires_def l5) (simp add: steady_cycle_def sendInterval_def)
  have r4: "run_loops ?P ?st ! 4 = loop ?p5 s4"
    by (simp add: s1_def s2_def s3_def s4_def)
  have r5: "run_loops ?P ?st ! 5 = loop ?p6 s5"
    by (simp add: s1_def s2_def s3_def s4_def s5_def)
  have fired4: "snd (run_loops ?P ?st ! 4) \<noteq> []"
    unfolding r4 using f5 by (simp add: loop_events_iff)
  have fired5: "snd (run_loops ?P ?st ! 5) \<noteq> []"
    unfolding r5 using f6 by (simp add: loop_events_iff)
  have k4: "(4 :: nat) < length ?P" and k5: "(5 :: nat) < length ?P" by simp_all
  have h: "\<forall>inp\<in>set ?P. testA0 inp = 600 \<and> (\<forall>i<numReadings. samplesA0 inp i = 600)"
    by (simp add: steady_cycle_def steady_def)
  from steady_600_percentage [OF k4 h fired4] steady_600_percentage [OF k5 h fired5]
  show ?thesis using k4 k5 fired4 fired5 by (simp only:) simp
qed

lemma scripted_samples:
  "map (scripted [x0, x1, x2, x3, x4]) [0..<numReadings] = [x0, x1, x2, x3, x4]"
  by (simp add: numReadings_def scripted_def eval_nat_numeral)

lemma median_dry_script: "median_filter numReadings [1023, 1023, 1023, 5, 7] = 1023"
  unfolding numReadings_def by code_simp

text \<open>
  C7, on the code. Five cycles after startup in each of which sensor A0 passes the
  validation with 512 and then gives the samples 1023, 1023, 1023, 5 and 7, whose median is
  1023, the dry calibration value. After the fifth cycle \<open>rawValueA0\<close> is 1023,
  \<open>totalReadingA0\<close> is 1023, the average that is mapped is \<open>1023 / 5 = 204\<close> and
  \<open>percentageA0\<close> is 100. The mapping gives 0 for the input 1023, which is also the
  average of a window that holds five samples of 1023, and the single-sensor sketch computes
  0 for the reading 1023.
\<close>

theorem dry_median_percentage:
  "rawValue (chA0 (fst (run_loops
      [scripted_cycle 5000 5000 512 [1023, 1023, 1023, 5, 7] 600,
       scripted_cycle 10000 10000 512 [1023, 1023, 1023, 5, 7] 600,
       scripted_cycle 15000 15000 512 [1023, 1023, 1023, 5, 7] 600,
       scripted_cycle 20000 20000 512 [1023, 1023, 1023, 5, 7] 600,
       scripted_cycle 25000 25000 512 [1023, 1023, 1023, 5, 7] 600]
      (fst (setup_sketch 512 600 sketch_init)) ! 4))) = 1023
   \<and> totalReading (chA0 (fst (run_loops
      [scripted_cycle 5000 5000 512 [1023, 1023, 1023, 5, 7] 600,
       scripted_cycle 10000 10000 512 [1023, 1023, 1023, 5, 7] 600,
       scripted_cycle 15000 15000 512 [1023, 1023, 1023, 5, 7] 600,
       scripted_cycle 20000 20000 512 [1023, 1023, 1023, 5, 7] 600,
       scripted_cycle 25000 25000 512 [1023, 1023, 1023, 5, 7] 600]
      (fst (setup_sketch 512 600 sketch_init)) ! 4))) = 1023
   \<and> c_div (totalReading (chA0 (fst (run_loops
      [scripted_cycle 5000 5000 512 [1023, 1023, 1023, 5, 7] 600,
       scripted_cycle 10000 10000 512 [1023, 1023, 1023, 5, 7] 600,
       scripted_cycle 15000 15000 512 [1023, 1023, 1023, 5, 7] 600,
       scripted_cycle 20000 20000 512 [1023, 1023, 1023, 5, 7] 600,
       scripted_cycle 25000 25000 512 [1023, 1023, 1023, 5, 7] 600]
      (fst (setup_sketch 512 600 sketch_init)) ! 4)))) (int numReadings) = 204
   \<and> percentage (chA0 (fst (run_loops
      [scripted_cycle 5000 5000 512 [1023, 1023, 1023, 5, 7] 600,
       scripted_cycle 10000 10000 512 [1023, 1023, 1023, 5, 7] 600,
       scripted_cycle 15000 15000 512 [1023, 1023, 1023, 5, 7] 600,
       scripted_cycle 20000 20000 512 [1023, 1023, 1023, 5, 7] 600,
       scripted_cycle 25000 25000 512 [1023, 1023, 1023, 5, 7] 600]
      (fst (setup_sketch 512 600 sketch_init)) ! 4))) = 100
   \<and> to_percentage 1023 airValueA0 waterValueA0 = 0
   \<and> to_percentage (c_div (1023 + 1023 + 1023 + 1023 + 1023) (int numReadings)) airValueA0 waterValueA0 = 0
   \<and> moisturePercentage (fst (readSoilMoisture 1023 single_init)) = 0"
proof -
  let ?st = "fst (setup_sketch 512 600 sketch_init)"
  let ?p1 = "scripted_cycle 5000 5000 512 [1023, 1023, 1023, 5, 7] 600"
  let ?p2 = "scripted_cycle 10000 10000 512 [1023, 1023, 1023, 5, 7] 600"
  let ?p3 = "scripted_cycle 15000 15000 512 [1023, 1023, 1023, 5, 7] 600"
  let ?p4 = "scripted_cycle 20000 20000 512 [1023, 1023, 1023, 5, 7] 600"
  let ?p5 = "scripted_cycle 25000 25000 512 [1023, 1023, 1023, 5, 7] 600"
  let ?P = "[?p1, ?p2, ?p3, ?p4, ?p5]"
  define s1 where "s1 = fst (loop ?p1 ?st)"
  define s2 where "s2 = fst (loop ?p2 s1)"
  define s3 where "s3 = fst (loop ?p3 s2)"
  define s4 where "s4 = fst (loop ?p4 s3)"
  have f1: "fires ?p1 ?st"
    by (simp add: fires_def scripted_cycle_def sendInterval_def startup_never_good)
  have l1: "lastSendTime s1 = 5000"
    unfolding s1_def using f1 by (simp add: loop_lastSendTime scripted_cycle_def)
  have f2: "fires ?p2 s1"
    by (simp add: fires_def l1) (simp add: scripted_cycle_def sendInterval_def)
  have l2: "lastSendTime s2 = 10000"
    unfolding s2_def using f2 by (simp add: loop_lastSendTime scripted_cycle_def)
  have f3: "fires ?p3 s2"
    by (simp add: fires_def l2) (simp add: scripted_cycle_def sendInterval_def)
  have l3: "lastSendTime s3 = 15000"
    unfolding s3_def using f3 by (simp add: loop_lastSendTime scripted_cycle_def)
  have f4: "fires ?p4 s3"
    by (simp add: fires_def l3) (simp add: scripted_cycle_def sendInterval_def)
  have l4: "lastSendTime s4 = 20000"
    unfolding s4_def using f4 by (simp add: loop_lastSendTime scripted_cycle_def)
  have f5: "fires ?p5 s4"
    by (simp add: fires_def l4) (simp add: scripted_cycle_def sendInterval_def)
  have r4: "run_loops ?P ?st ! 4 = loop ?p5 s4"
    by (simp add: s1_def s2_def s3_def s4_def)
  have fired: "snd (run_loops ?P ?st ! 4) \<noteq> []"
    unfolding r4 using f5 by (simp add: loop_events_iff)
  have k: "(4 :: nat) < length ?P" by simp
  have p: "?P ! 4 = ?p5" by simp
  have valid: "\<not> out_of_range (testA0 (?P ! 4))"
    unfolding p by (simp add: scripted_cycle_def out_of_range_def)
  have adc: "\<forall>i<numReadings. 0 \<le> samplesA0 (?P ! 4) i \<and> samplesA0 (?P ! 4) i \<le> 1023"
    unfolding p by (simp add: scripted_cycle_def scripted_def numReadings_def eval_nat_numeral less_Suc_eq)
  have med: "median_filter numReadings (map (samplesA0 (?P ! 4)) [0..<numReadings]) = 1023"
    unfolding p by (simp add: scripted_cycle_def scripted_samples median_dry_script)
  from run_loops_fired_valid_A0 [OF k fired valid adc]
  have r: "rawValue (chA0 (fst (run_loops ?P ?st ! 4))) = 1023"
    "totalReading (chA0 (fst (run_loops ?P ?st ! 4))) = 1023"
    "percentage (chA0 (fst (run_loops ?P ?st ! 4))) = 100"
    unfolding med by simp_all
  have d: "c_div 1023 (int numReadings) = 204"
    "to_percentage 1023 airValueA0 waterValueA0 = 0"
    "to_percentage (c_div (1023 + 1023 + 1023 + 1023 + 1023) (int numReadings)) airValueA0 waterValueA0 = 0"
    "moisturePercentage (fst (readSoilMoisture 1023 single_init)) = 0"
    using to_percentage_dry [of 1023 300]
    by (simp_all add: c_div_def numReadings_def airValueA0_def waterValueA0_def
        readSoilMoisture_percentage airValue_def waterValue_def)
  show ?thesis using r d by (simp only:)
qed

end
